theory Spec2Isabelle
  imports Main
begin

section \<open>Data model of src/index.ts\<close>

text \<open>
  Nodes are JavaScript objects held by reference. A reference is modelled as a natural
  number (\<open>nid\<close>), which also stands for the node's \<open>id\<close> string: \<open>utils.createId\<close> is
  taken to return a fresh id on every call. Signal values (the type parameter \<open>T\<close>) are
  integers, with \<open>None\<close> for JavaScript's \<open>undefined\<close>. Priorities are JavaScript numbers
  that only ever hold sums of 1s; they are modelled as unbounded integers.
\<close>

type_synonym nid = nat
type_synonym val = "int option"

text \<open>
  The closures handed to the library (\<open>computeFn\<close>, \<open>effectFn\<close>, the cleanup an effect
  returns, the \<open>update\<close> argument of \<open>Signal.batch\<close>, and the top-level script) are
  trees of library calls: each constructor is one call of the public interface followed
  by the rest of the closure, which may depend on the value the call returned.
\<close>

datatype prog =
    Return val                          \<comment> \<open>\<open>return v\<close> (or falling off the end: \<open>Return None\<close>)\<close>
  | ReturnFn prog                       \<comment> \<open>an effect body returning its cleanup closure\<close>
  | Throw                               \<comment> \<open>\<open>throw\<close>\<close>
  | Read nid "val \<Rightarrow> prog"              \<comment> \<open>\<open>x.value\<close> (getter)\<close>
  | Peek nid "val \<Rightarrow> prog"              \<comment> \<open>\<open>x.peek()\<close>\<close>
  | Write nid val prog                  \<comment> \<open>\<open>x.value = v\<close> (setter)\<close>
  | Batch prog prog                     \<comment> \<open>\<open>Signal.batch(update)\<close>\<close>
  | Run nid prog                        \<comment> \<open>\<open>x.run()\<close>\<close>
  | Stop nid prog                       \<comment> \<open>\<open>e.stop()\<close>\<close>
  | NewSignal val "nid \<Rightarrow> prog"         \<comment> \<open>\<open>createSignal(init)\<close>\<close>
  | NewComputed prog "nid \<Rightarrow> prog"      \<comment> \<open>\<open>createComputed(fn)\<close>\<close>
  | NewEffect prog bool "nid \<Rightarrow> prog"   \<comment> \<open>\<open>createEffect(fn, manual)\<close>\<close>

datatype kind = Signal | Computed | Effect

datatype error =
    UserThrow        \<comment> \<open>an exception thrown by a closure\<close>
  | TypeError        \<comment> \<open>a member used on an object of a class that does not have it\<close>
  | ReferenceError   \<comment> \<open>a closure naming an object that has not been created\<close>

text \<open>What a call returns: a value, a closure, or a reference to a new object.\<close>

datatype result = RVal val | RFn prog | RRef nid

text \<open>
  A record of the calls the engine makes, kept for the statements about how often and in
  which order something runs: \<open>Derive c\<close> is one call of \<open>computeFn\<close> of \<open>c\<close>, \<open>Body e\<close>
  one call of \<open>effectFn\<close> of \<open>e\<close>, \<open>Cleanup e\<close> one call of the stored \<open>destroy\<close> of
  \<open>e\<close>, \<open>SchedRun x\<close> the scheduler taking \<open>x\<close> off the queue to run it (the place of
  \<open>log('Schedule run', this, node)\<close>), and \<open>Notify x\<close> one call of
  \<open>x.dirtyDownstream()\<close> (the place of \<open>log('notifyAll', this)\<close>).
\<close>

datatype event = Derive nid | Body nid | Cleanup nid | SchedRun nid | Notify nid

text \<open>
  The classes \<open>EffectNode\<close>, \<open>Signal\<close>, \<open>Computed\<close> and \<open>Effect\<close> as one record; \<open>kind\<close> is
  the \<open>type\<close> field. The objects \<open>prev\<close> and \<open>next\<close> (\<open>Record<string, EffectNode>\<close>) always
  map an id to the node with that id, so each is the list of its keys, in insertion order
  (the order of \<open>Object.values\<close> for keys that are not array indices; the ids, the digits
  of a random fraction, are taken to be too long to be array indices).
\<close>

record node =
  kind :: kind
  priority :: int
  dirty :: bool
  prevs :: "nid list"           \<comment> \<open>\<open>prev\<close>: upstream\<close>
  nexts :: "nid list"           \<comment> \<open>\<open>next\<close>: downstream\<close>
  node_value :: val             \<comment> \<open>\<open>_value\<close> of Signal and Computed\<close>
  computeFn :: prog
  effectFn :: prog
  destroy :: "prog option"
  running :: bool
  manual :: bool

text \<open>
  The process-wide state: the object store, the static \<open>EffectNode.effectStack\<close> (an array,
  top at the end), the fields \<open>queueIndex\<close> and \<open>queue\<close> of the singleton \<open>schedule\<close>, and
  the statics \<open>Signal.batchMode\<close> and \<open>Signal.batchQueue\<close>.
\<close>

record state =
  heap :: "nid \<Rightarrow> node"
  nextId :: nid
  effectStack :: "nid list"
  queueIndex :: "nid list"
  queue :: "nid list"
  batchMode :: bool
  batchQueue :: "nid list"
  trace :: "event list"

text \<open>
  A call ends in one of three ways: it returns a value, it throws (the state reached when
  the exception leaves the call is kept: JavaScript does not roll anything back), or the
  evaluation does not finish within the given depth (\<open>None\<close>).
\<close>

type_synonym 'a res = "(state \<times> (error + 'a)) option"

definition ret :: "'a \<Rightarrow> state \<Rightarrow> 'a res" where
  "ret v st = Some (st, Inr v)"

definition void :: "state \<Rightarrow> result res" where
  "void st = Some (st, Inr (RVal None))"

definition throw :: "error \<Rightarrow> state \<Rightarrow> 'a res" where
  "throw e st = Some (st, Inl e)"

definition and_then :: "'a res \<Rightarrow> ('a \<Rightarrow> state \<Rightarrow> 'b res) \<Rightarrow> 'b res" where
  "and_then m k =
     (case m of None \<Rightarrow> None
      | Some (st, Inl e) \<Rightarrow> Some (st, Inl e)
      | Some (st, Inr v) \<Rightarrow> k v st)"

text \<open>\<open>obj[k] = node\<close> on an object modelled by its key list: a new key goes to the end.\<close>

definition obj_put :: "nid \<Rightarrow> nid list \<Rightarrow> nid list" where
  "obj_put k ks = (if k \<in> set ks then ks else ks @ [k])"

definition upd_node :: "nid \<Rightarrow> (node \<Rightarrow> node) \<Rightarrow> state \<Rightarrow> state" where
  "upd_node x f st = st\<lparr>heap := (heap st)(x := f (heap st x))\<rparr>"

definition emit :: "event \<Rightarrow> state \<Rightarrow> state" where
  "emit e st = st\<lparr>trace := trace st @ [e]\<rparr>"

section \<open>EffectNode\<close>

text \<open>
  src/index.ts, lines 37 to 105: \<open>addCurrentEffect\<close> (47-50), \<open>popCurrentEffect\<close> (53-58),
  \<open>collect\<close> (61-73), \<open>release\<close> (76-83), \<open>updatePriority\<close> (86-90) and \<open>run\<close> (102-104).
  The argument \<open>x\<close> is \<open>this\<close>. \<open>popCurrentEffect\<close> pops only when \<open>this\<close> is on top; on an
  empty stack the comparison is with \<open>undefined\<close> and fails.
\<close>

definition addCurrentEffect :: "nid \<Rightarrow> state \<Rightarrow> state" where
  "addCurrentEffect x st = st\<lparr>effectStack := effectStack st @ [x]\<rparr>"

definition popCurrentEffect :: "nid \<Rightarrow> state \<Rightarrow> state" where
  "popCurrentEffect x st =
     (if effectStack st \<noteq> [] \<and> last (effectStack st) = x
      then st\<lparr>effectStack := butlast (effectStack st)\<rparr> else st)"

text \<open>
  \<open>collect\<close>: \<open>cur\<close> is the top of the stack, \<open>undefined\<close> (falsy) when the stack is empty.
  The three assignments are made one after the other, so that the case \<open>cur === this\<close>
  reads what the earlier assignments wrote.
\<close>

definition collect :: "nid \<Rightarrow> state \<Rightarrow> state" where
  "collect x st =
     (if effectStack st = [] then st
      else let cur = last (effectStack st) in
        if cur \<in> set (nexts (heap st x)) then st
        else
          let st1 = upd_node x (\<lambda>n. n\<lparr>nexts := obj_put cur (nexts n)\<rparr>) st;
              st2 = upd_node cur (\<lambda>n. n\<lparr>prevs := obj_put x (prevs n)\<rparr>) st1
          in upd_node cur (\<lambda>n. n\<lparr>priority := priority n + priority (heap st2 x)\<rparr>) st2)"

text \<open>
  \<open>release\<close>: \<open>delete prevNode.next[this.id]\<close> for every value of \<open>this.prev\<close>, taken
  before the loop starts; then \<open>priority = 1\<close> and \<open>prev = {}\<close>.
\<close>

definition release :: "nid \<Rightarrow> state \<Rightarrow> state" where
  "release x st =
     (let st1 = fold (\<lambda>p. upd_node p (\<lambda>n. n\<lparr>nexts := removeAll x (nexts n)\<rparr>))
                     (prevs (heap st x)) st
      in upd_node x (\<lambda>n. n\<lparr>priority := 1, prevs := []\<rparr>) st1)"

text \<open>\<open>updatePriority\<close>: \<open>reduce((a, b) => a + b, 0)\<close> over the priorities of \<open>prev\<close>.\<close>

definition updatePriority :: "nid \<Rightarrow> state \<Rightarrow> state" where
  "updatePriority x st =
     upd_node x
       (\<lambda>n. n\<lparr>priority := foldl (+) 0 (map (\<lambda>p. priority (heap st p)) (prevs (heap st x)))\<rparr>)
       st"

text \<open>\<open>run\<close> of the base class.\<close>

definition base_run :: "nid \<Rightarrow> state \<Rightarrow> state" where
  "base_run x st = upd_node x (\<lambda>n. n\<lparr>dirty := False\<rparr>) st"

section \<open>Schedule\<close>

text \<open>
  \<open>addEffectTask\<close> (lines 27-32), and \<open>EffectNode.dirtyDownstream\<close> (lines 93-99), which
  calls it for every value of \<open>this.next\<close>. \<open>autoRun\<close> (lines 16-24) runs nodes and is
  defined with the calls that run closures.
\<close>

definition addEffectTask :: "nid \<Rightarrow> state \<Rightarrow> state" where
  "addEffectTask n st =
     (if n \<in> set (queueIndex st) then st
      else st\<lparr>queueIndex := obj_put n (queueIndex st), queue := queue st @ [n]\<rparr>)"

definition dirtyDownstream :: "nid \<Rightarrow> state \<Rightarrow> state" where
  "dirtyDownstream x st =
     fold (\<lambda>n s. addEffectTask n (upd_node n (\<lambda>d. d\<lparr>dirty := True\<rparr>) s))
          (nexts (heap st x)) (emit (Notify x) st)"

section \<open>Constructors and the calls that run no closure\<close>

text \<open>
  The field initialisers of \<open>EffectNode\<close> (lines 39-43) and \<open>Effect\<close> (lines 201-202), the
  constructors of \<open>Signal\<close> (112-115) and \<open>Computed\<close> (161-165, which sets \<open>dirty\<close>), the
  getter of \<open>Signal\<close> (117-121) and the two \<open>peek\<close> methods (128-131, 185-187).
\<close>

definition new_node :: "kind \<Rightarrow> node" where
  "new_node k = \<lparr>kind = k, priority = 1, dirty = False, prevs = [], nexts = [],
     node_value = None, computeFn = Return None, effectFn = Return None, destroy = None,
     running = False, manual = False\<rparr>"

definition alloc :: "node \<Rightarrow> state \<Rightarrow> nid \<times> state" where
  "alloc nd st =
     (nextId st, st\<lparr>heap := (heap st)(nextId st := nd), nextId := Suc (nextId st)\<rparr>)"

definition createSignal :: "val \<Rightarrow> state \<Rightarrow> nid \<times> state" where
  "createSignal init st = alloc ((new_node Signal)\<lparr>node_value := init\<rparr>) st"

definition createComputed :: "prog \<Rightarrow> state \<Rightarrow> nid \<times> state" where
  "createComputed fn st = alloc ((new_node Computed)\<lparr>computeFn := fn, dirty := True\<rparr>) st"

definition signal_value_get :: "nid \<Rightarrow> state \<Rightarrow> result res" where
  "signal_value_get x st = (let st1 = collect x st in ret (RVal (node_value (heap st1 x))) st1)"

definition signal_peek :: "nid \<Rightarrow> state \<Rightarrow> result res" where
  "signal_peek x st = ret (RVal (node_value (heap st x))) st"

definition computed_peek :: "nid \<Rightarrow> state \<Rightarrow> result res" where
  "computed_peek x st = ret (RVal (node_value (heap st x))) st"

text \<open>
  The state before the script starts. Ids are handed out in order, so the objects that
  exist are those below \<open>nextId\<close>; a closure that names any other id fails with a
  \<open>ReferenceError\<close>, as a closure naming an undeclared variable does.
\<close>

definition init_state :: state where
  "init_state = \<lparr>heap = (\<lambda>_. new_node Signal), nextId = 0, effectStack = [], queueIndex = [],
     queue = [], batchMode = False, batchQueue = [], trace = []\<rparr>"

section \<open>The calls that run closures\<close>

text \<open>
  The methods below call each other and the closures, and the closures call them back, so
  they are the cases of one function. Its first argument bounds the depth of nested calls:
  every call takes one from it, and \<open>None\<close> means the bound was reached.

  A closure's call on an object of the wrong class, which TypeScript rejects, is a
  \<open>TypeError\<close>. In \<open>autoRun\<close> the comparator \<open>-(a.priority - b.priority)\<close> sorts by
  descending priority, stably, as \<open>Array.prototype.sort\<close> does; \<open>pop()\<close> takes the last
  element. In \<open>Effect.stop\<close>, \<open>this.destroy && this.destroy()\<close> calls the cleanup when one
  is stored.
\<close>

datatype call =
    Exec prog                 \<comment> \<open>calling a closure\<close>
  | AutoRun                   \<comment> \<open>\<open>schedule.autoRun()\<close>, lines 16-24\<close>
  | NodeRun nid               \<comment> \<open>\<open>node.run()\<close>, dispatched on the class (102-104, 123-126)\<close>
  | EnsureComputed nid        \<comment> \<open>\<open>Computed._ensureComputed\<close>, lines 167-176\<close>
  | ComputedGet nid           \<comment> \<open>\<open>Computed.value\<close> (getter), lines 178-183\<close>
  | ComputedRun nid           \<comment> \<open>\<open>Computed.run\<close>, lines 189-195\<close>
  | EffectRun nid             \<comment> \<open>\<open>Effect.run\<close>, lines 214-223\<close>
  | EffectStop nid            \<comment> \<open>\<open>Effect.stop\<close>, lines 225-233\<close>
  | SignalSet nid val         \<comment> \<open>\<open>Signal.value\<close> (setter), lines 133-142\<close>
  | BatchCall prog            \<comment> \<open>\<open>Signal.batch\<close>, lines 147-153\<close>
  | CreateEffect prog bool    \<comment> \<open>\<open>new Effect(effectFn, manual)\<close>, lines 205-212\<close>

fun run :: "nat \<Rightarrow> call \<Rightarrow> state \<Rightarrow> result res" where
  "run 0 c st = None"
| "run (Suc n) (Exec (Return v)) st = ret (RVal v) st"
| "run (Suc n) (Exec (ReturnFn c)) st = ret (RFn c) st"
| "run (Suc n) (Exec Throw) st = throw UserThrow st"
| "run (Suc n) (Exec (Read x k)) st =
     and_then (if \<not> x < nextId st then throw ReferenceError st
               else case kind (heap st x) of
                 Signal \<Rightarrow> signal_value_get x st
               | Computed \<Rightarrow> run n (ComputedGet x) st
               | Effect \<Rightarrow> throw TypeError st)
       (\<lambda>r. run n (Exec (k (case r of RVal v \<Rightarrow> v | _ \<Rightarrow> None))))"
| "run (Suc n) (Exec (Peek x k)) st =
     and_then (if \<not> x < nextId st then throw ReferenceError st
               else case kind (heap st x) of
                 Signal \<Rightarrow> signal_peek x st
               | Computed \<Rightarrow> computed_peek x st
               | Effect \<Rightarrow> throw TypeError st)
       (\<lambda>r. run n (Exec (k (case r of RVal v \<Rightarrow> v | _ \<Rightarrow> None))))"
| "run (Suc n) (Exec (Write x v k)) st =
     and_then (if \<not> x < nextId st then throw ReferenceError st
               else case kind (heap st x) of
                 Signal \<Rightarrow> run n (SignalSet x v) st
               | _ \<Rightarrow> throw TypeError st)
       (\<lambda>_. run n (Exec k))"
| "run (Suc n) (Exec (Batch u k)) st =
     and_then (run n (BatchCall u) st) (\<lambda>_. run n (Exec k))"
| "run (Suc n) (Exec (Run x k)) st =
     and_then (if \<not> x < nextId st then throw ReferenceError st
               else run n (NodeRun x) st)
       (\<lambda>_. run n (Exec k))"
| "run (Suc n) (Exec (Stop x k)) st =
     and_then (if \<not> x < nextId st then throw ReferenceError st
               else case kind (heap st x) of
                 Effect \<Rightarrow> run n (EffectStop x) st
               | _ \<Rightarrow> throw TypeError st)
       (\<lambda>_. run n (Exec k))"
| "run (Suc n) (Exec (NewSignal v k)) st =
     (case createSignal v st of (x, st1) \<Rightarrow> run n (Exec (k x)) st1)"
| "run (Suc n) (Exec (NewComputed f k)) st =
     (case createComputed f st of (x, st1) \<Rightarrow> run n (Exec (k x)) st1)"
| "run (Suc n) (Exec (NewEffect f m k)) st =
     and_then (run n (CreateEffect f m) st)
       (\<lambda>r. run n (Exec (k (case r of RRef x \<Rightarrow> x | _ \<Rightarrow> 0))))"
| "run (Suc n) AutoRun st =
     (if queue st = [] then void st
      else
        let ordered = sort_key (\<lambda>i. - priority (heap st i)) (queue st);
            node = last ordered;
            st1 = emit (SchedRun node) (st\<lparr>queue := butlast ordered\<rparr>);
            st2 = st1\<lparr>queueIndex := removeAll node (queueIndex st1)\<rparr>
        in and_then (run n (NodeRun node) st2) (\<lambda>_. run n AutoRun))"
| "run (Suc n) (NodeRun x) st =
     (case kind (heap st x) of
        Signal \<Rightarrow> void (base_run x st)
      | Computed \<Rightarrow> run n (ComputedRun x) st
      | Effect \<Rightarrow> run n (EffectRun x) st)"
| "run (Suc n) (EnsureComputed c) st =
     (if dirty (heap st c) then
        and_then (run n (Exec (computeFn (heap st c)))
                    (emit (Derive c) (addCurrentEffect c (release c st))))
          (\<lambda>r st1.
             let st2 = upd_node c
                         (\<lambda>d. d\<lparr>node_value := (case r of RVal v \<Rightarrow> v | _ \<Rightarrow> None)\<rparr>) st1
             in void (updatePriority c (popCurrentEffect c st2)))
      else void st)"
| "run (Suc n) (ComputedGet c) st =
     and_then (run n (EnsureComputed c) (collect c st))
       (\<lambda>_ st1. ret (RVal (node_value (heap st1 c))) st1)"
| "run (Suc n) (ComputedRun c) st =
     and_then (run n (EnsureComputed c) st)
       (\<lambda>_ st1. run n AutoRun (dirtyDownstream c (base_run c st1)))"
| "run (Suc n) (EffectRun e) st =
     (let st1 = upd_node e (\<lambda>d. d\<lparr>running := True\<rparr>) st;
          st2 = release e (addCurrentEffect e st1)
      in and_then (run n (Exec (effectFn (heap st2 e))) (emit (Body e) st2))
           (\<lambda>r st3.
              let st4 = upd_node e
                          (\<lambda>d. d\<lparr>destroy := (case r of RFn c \<Rightarrow> Some c | _ \<Rightarrow> None)\<rparr>) st3
              in void (base_run e (updatePriority e (popCurrentEffect e st4)))))"
| "run (Suc n) (EffectStop e) st =
     (if running (heap st e) then
        and_then (case destroy (heap st e) of
                    None \<Rightarrow> void st
                  | Some c \<Rightarrow> run n (Exec c) (emit (Cleanup e) st))
          (\<lambda>_ st1. void (upd_node e (\<lambda>d. d\<lparr>destroy := None, running := False\<rparr>)
                            (release e st1)))
      else void st)"
| "run (Suc n) (SignalSet x v) st =
     (let st1 = upd_node x (\<lambda>d. d\<lparr>node_value := v\<rparr>) st in
      if batchMode st1 then void (st1\<lparr>batchQueue := obj_put x (batchQueue st1)\<rparr>)
      else run n AutoRun (dirtyDownstream x st1))"
| "run (Suc n) (BatchCall u) st =
     and_then (run n (Exec u) (st\<lparr>batchMode := True\<rparr>))
       (\<lambda>_ st1.
          let st2 = st1\<lparr>batchMode := False\<rparr>
          in run n AutoRun (fold dirtyDownstream (batchQueue st2) st2))"
| "run (Suc n) (CreateEffect f m) st =
     (case alloc ((new_node Effect)\<lparr>effectFn := f, manual := m\<rparr>) st of (e, st1) \<Rightarrow>
        if \<not> m then and_then (run n (EffectRun e) st1) (\<lambda>_. ret (RRef e))
        else ret (RRef e) st1)"

text \<open>The source's names for the cases.\<close>

abbreviation exec :: "nat \<Rightarrow> prog \<Rightarrow> state \<Rightarrow> result res" where
  "exec n p \<equiv> run n (Exec p)"
abbreviation autoRun :: "nat \<Rightarrow> state \<Rightarrow> result res" where
  "autoRun n \<equiv> run n AutoRun"
abbreviation node_run :: "nat \<Rightarrow> nid \<Rightarrow> state \<Rightarrow> result res" where
  "node_run n x \<equiv> run n (NodeRun x)"
abbreviation ensureComputed :: "nat \<Rightarrow> nid \<Rightarrow> state \<Rightarrow> result res" where
  "ensureComputed n c \<equiv> run n (EnsureComputed c)"
abbreviation computed_value_get :: "nat \<Rightarrow> nid \<Rightarrow> state \<Rightarrow> result res" where
  "computed_value_get n c \<equiv> run n (ComputedGet c)"
abbreviation computed_run :: "nat \<Rightarrow> nid \<Rightarrow> state \<Rightarrow> result res" where
  "computed_run n c \<equiv> run n (ComputedRun c)"
abbreviation effect_run :: "nat \<Rightarrow> nid \<Rightarrow> state \<Rightarrow> result res" where
  "effect_run n e \<equiv> run n (EffectRun e)"
abbreviation effect_stop :: "nat \<Rightarrow> nid \<Rightarrow> state \<Rightarrow> result res" where
  "effect_stop n e \<equiv> run n (EffectStop e)"
abbreviation signal_value_set :: "nat \<Rightarrow> nid \<Rightarrow> val \<Rightarrow> state \<Rightarrow> result res" where
  "signal_value_set n x v \<equiv> run n (SignalSet x v)"
abbreviation batch :: "nat \<Rightarrow> prog \<Rightarrow> state \<Rightarrow> result res" where
  "batch n u \<equiv> run n (BatchCall u)"
abbreviation createEffect :: "nat \<Rightarrow> prog \<Rightarrow> bool \<Rightarrow> state \<Rightarrow> result res" where
  "createEffect n f m \<equiv> run n (CreateEffect f m)"

section \<open>The earlier version, src/unnamed/part_000\<close>

text \<open>
  The earlier file has the same classes. \<open>Schedule.run\<close> and \<open>Schedule.add\<close> are the later
  \<open>autoRun\<close> and \<open>addEffectTask\<close> under other names; \<open>EffectNode.notifyAll\<close> marks and
  queues the downstream nodes and then calls \<open>schedule.run()\<close> itself; the setter of \<open>Signal\<close>
  and \<open>Computed.run\<close> end in \<open>notifyAll\<close>; there is no \<open>Signal.batch\<close>. The other methods of
  \<open>EffectNode\<close>, the getters, \<open>peek\<close>, \<open>Effect\<close> and the constructors are the same text in both
  files, and the definitions above stand for them. The state is the same record; the earlier
  version never touches \<open>batchMode\<close> and \<open>batchQueue\<close>.
\<close>

definition v0_add :: "nid \<Rightarrow> state \<Rightarrow> state" where
  "v0_add n st =
     (if n \<in> set (queueIndex st) then st
      else st\<lparr>queueIndex := obj_put n (queueIndex st), queue := queue st @ [n]\<rparr>)"

definition v0_mark_downstream :: "nid \<Rightarrow> state \<Rightarrow> state" where
  "v0_mark_downstream x st =
     fold (\<lambda>n s. v0_add n (upd_node n (\<lambda>d. d\<lparr>dirty := True\<rparr>) s))
          (nexts (heap st x)) (emit (Notify x) st)"

text \<open>
  \<open>v0_add\<close> is \<open>Schedule.add\<close> (part_000 lines 26-31) and \<open>v0_mark_downstream\<close> the loop of
  \<open>notifyAll\<close> (lines 95-98). \<open>notifyAll\<close> does nothing but run its loop and call
  \<open>schedule.run()\<close>; the depth bound counts the two as one call. A closure that calls
  \<open>Signal.batch\<close>, which this version does not have, fails with a \<open>TypeError\<close>.
\<close>

datatype v0_call =
    V0Exec prog                 \<comment> \<open>calling a closure\<close>
  | V0ScheduleRun               \<comment> \<open>\<open>schedule.run()\<close>, part_000 lines 15-24\<close>
  | V0NodeRun nid               \<comment> \<open>\<open>node.run()\<close>, dispatched on the class (102-104, 123-126)\<close>
  | V0NotifyAll nid             \<comment> \<open>\<open>EffectNode.notifyAll\<close>, lines 92-100\<close>
  | V0EnsureComputed nid        \<comment> \<open>\<open>Computed._ensureComputed\<close>, lines 151-160\<close>
  | V0ComputedGet nid           \<comment> \<open>\<open>Computed.value\<close> (getter), lines 162-167\<close>
  | V0ComputedRun nid           \<comment> \<open>\<open>Computed.run\<close>, lines 173-178\<close>
  | V0EffectRun nid             \<comment> \<open>\<open>Effect.run\<close>, lines 197-206\<close>
  | V0EffectStop nid            \<comment> \<open>\<open>Effect.stop\<close>, lines 208-216\<close>
  | V0SignalSet nid val         \<comment> \<open>\<open>Signal.value\<close> (setter), lines 133-137\<close>
  | V0CreateEffect prog bool    \<comment> \<open>\<open>new Effect(effectFn, manual)\<close>, lines 188-195\<close>

function (sequential) v0_run :: "nat \<Rightarrow> v0_call \<Rightarrow> state \<Rightarrow> result res" where
  "v0_run n (V0NotifyAll x) st = v0_run n V0ScheduleRun (v0_mark_downstream x st)"
| "v0_run 0 c st = None"
| "v0_run (Suc n) (V0Exec (Return v)) st = ret (RVal v) st"
| "v0_run (Suc n) (V0Exec (ReturnFn c)) st = ret (RFn c) st"
| "v0_run (Suc n) (V0Exec Throw) st = throw UserThrow st"
| "v0_run (Suc n) (V0Exec (Read x k)) st =
     and_then (if \<not> x < nextId st then throw ReferenceError st
               else case kind (heap st x) of
                 Signal \<Rightarrow> signal_value_get x st
               | Computed \<Rightarrow> v0_run n (V0ComputedGet x) st
               | Effect \<Rightarrow> throw TypeError st)
       (\<lambda>r. v0_run n (V0Exec (k (case r of RVal v \<Rightarrow> v | _ \<Rightarrow> None))))"
| "v0_run (Suc n) (V0Exec (Peek x k)) st =
     and_then (if \<not> x < nextId st then throw ReferenceError st
               else case kind (heap st x) of
                 Signal \<Rightarrow> signal_peek x st
               | Computed \<Rightarrow> computed_peek x st
               | Effect \<Rightarrow> throw TypeError st)
       (\<lambda>r. v0_run n (V0Exec (k (case r of RVal v \<Rightarrow> v | _ \<Rightarrow> None))))"
| "v0_run (Suc n) (V0Exec (Write x v k)) st =
     and_then (if \<not> x < nextId st then throw ReferenceError st
               else case kind (heap st x) of
                 Signal \<Rightarrow> v0_run n (V0SignalSet x v) st
               | _ \<Rightarrow> throw TypeError st)
       (\<lambda>_. v0_run n (V0Exec k))"
| "v0_run (Suc n) (V0Exec (Batch u k)) st = throw TypeError st"
| "v0_run (Suc n) (V0Exec (Run x k)) st =
     and_then (if \<not> x < nextId st then throw ReferenceError st
               else v0_run n (V0NodeRun x) st)
       (\<lambda>_. v0_run n (V0Exec k))"
| "v0_run (Suc n) (V0Exec (Stop x k)) st =
     and_then (if \<not> x < nextId st then throw ReferenceError st
               else case kind (heap st x) of
                 Effect \<Rightarrow> v0_run n (V0EffectStop x) st
               | _ \<Rightarrow> throw TypeError st)
       (\<lambda>_. v0_run n (V0Exec k))"
| "v0_run (Suc n) (V0Exec (NewSignal v k)) st =
     (case createSignal v st of (x, st1) \<Rightarrow> v0_run n (V0Exec (k x)) st1)"
| "v0_run (Suc n) (V0Exec (NewComputed f k)) st =
     (case createComputed f st of (x, st1) \<Rightarrow> v0_run n (V0Exec (k x)) st1)"
| "v0_run (Suc n) (V0Exec (NewEffect f m k)) st =
     and_then (v0_run n (V0CreateEffect f m) st)
       (\<lambda>r. v0_run n (V0Exec (k (case r of RRef x \<Rightarrow> x | _ \<Rightarrow> 0))))"
| "v0_run (Suc n) V0ScheduleRun st =
     (if queue st = [] then void st
      else
        let ordered = sort_key (\<lambda>i. - priority (heap st i)) (queue st);
            node = last ordered;
            st1 = emit (SchedRun node) (st\<lparr>queue := butlast ordered\<rparr>);
            st2 = st1\<lparr>queueIndex := removeAll node (queueIndex st1)\<rparr>
        in and_then (v0_run n (V0NodeRun node) st2) (\<lambda>_. v0_run n V0ScheduleRun))"
| "v0_run (Suc n) (V0NodeRun x) st =
     (case kind (heap st x) of
        Signal \<Rightarrow> void (base_run x st)
      | Computed \<Rightarrow> v0_run n (V0ComputedRun x) st
      | Effect \<Rightarrow> v0_run n (V0EffectRun x) st)"
| "v0_run (Suc n) (V0EnsureComputed c) st =
     (if dirty (heap st c) then
        and_then (v0_run n (V0Exec (computeFn (heap st c)))
                    (emit (Derive c) (addCurrentEffect c (release c st))))
          (\<lambda>r st1.
             let st2 = upd_node c
                         (\<lambda>d. d\<lparr>node_value := (case r of RVal v \<Rightarrow> v | _ \<Rightarrow> None)\<rparr>) st1
             in void (updatePriority c (popCurrentEffect c st2)))
      else void st)"
| "v0_run (Suc n) (V0ComputedGet c) st =
     and_then (v0_run n (V0EnsureComputed c) (collect c st))
       (\<lambda>_ st1. ret (RVal (node_value (heap st1 c))) st1)"
| "v0_run (Suc n) (V0ComputedRun c) st =
     and_then (v0_run n (V0EnsureComputed c) st)
       (\<lambda>_ st1. v0_run n (V0NotifyAll c) (base_run c st1))"
| "v0_run (Suc n) (V0EffectRun e) st =
     (let st1 = upd_node e (\<lambda>d. d\<lparr>running := True\<rparr>) st;
          st2 = release e (addCurrentEffect e st1)
      in and_then (v0_run n (V0Exec (effectFn (heap st2 e))) (emit (Body e) st2))
           (\<lambda>r st3.
              let st4 = upd_node e
                          (\<lambda>d. d\<lparr>destroy := (case r of RFn c \<Rightarrow> Some c | _ \<Rightarrow> None)\<rparr>) st3
              in void (base_run e (updatePriority e (popCurrentEffect e st4)))))"
| "v0_run (Suc n) (V0EffectStop e) st =
     (if running (heap st e) then
        and_then (case destroy (heap st e) of
                    None \<Rightarrow> void st
                  | Some c \<Rightarrow> v0_run n (V0Exec c) (emit (Cleanup e) st))
          (\<lambda>_ st1. void (upd_node e (\<lambda>d. d\<lparr>destroy := None, running := False\<rparr>)
                            (release e st1)))
      else void st)"
| "v0_run (Suc n) (V0SignalSet x v) st =
     v0_run n (V0NotifyAll x) (upd_node x (\<lambda>d. d\<lparr>node_value := v\<rparr>) st)"
| "v0_run (Suc n) (V0CreateEffect f m) st =
     (case alloc ((new_node Effect)\<lparr>effectFn := f, manual := m\<rparr>) st of (e, st1) \<Rightarrow>
        if \<not> m then and_then (v0_run n (V0EffectRun e) st1) (\<lambda>_. ret (RRef e))
        else ret (RRef e) st1)"
  by pat_completeness auto
termination
  by (relation "measures [\<lambda>(n, c, st). n, \<lambda>(n, c, st). (case c of V0NotifyAll _ \<Rightarrow> 1 | _ \<Rightarrow> 0)]")
     auto

abbreviation v0_schedule_run :: "nat \<Rightarrow> state \<Rightarrow> result res" where
  "v0_schedule_run n \<equiv> v0_run n V0ScheduleRun"
abbreviation v0_notifyAll :: "nat \<Rightarrow> nid \<Rightarrow> state \<Rightarrow> result res" where
  "v0_notifyAll n x \<equiv> v0_run n (V0NotifyAll x)"
abbreviation v0_signal_value_set :: "nat \<Rightarrow> nid \<Rightarrow> val \<Rightarrow> state \<Rightarrow> result res" where
  "v0_signal_value_set n x v \<equiv> v0_run n (V0SignalSet x v)"
abbreviation v0_computed_run :: "nat \<Rightarrow> nid \<Rightarrow> state \<Rightarrow> result res" where
  "v0_computed_run n c \<equiv> v0_run n (V0ComputedRun c)"

section \<open>Properties of states\<close>

text \<open>Edge symmetry: \<open>a\<close> is in \<open>b.prev\<close> exactly when \<open>b\<close> is in \<open>a.next\<close>.\<close>

definition mirrored :: "state \<Rightarrow> bool" where
  "mirrored st \<longleftrightarrow> (\<forall>a b. a \<in> set (prevs (heap st b)) \<longleftrightarrow> b \<in> set (nexts (heap st a)))"

text \<open>
  The scheduler's two fields agree: no node is queued twice, and the keys of \<open>queueIndex\<close>
  (an object, so without repetition) are the nodes of \<open>queue\<close>.
\<close>

definition sched_inv :: "state \<Rightarrow> bool" where
  "sched_inv st \<longleftrightarrow>
     distinct (queue st) \<and> distinct (queueIndex st) \<and> set (queueIndex st) = set (queue st)"

text \<open>Only objects that exist are linked, being evaluated, or queued.\<close>

definition alloc_inv :: "state \<Rightarrow> bool" where
  "alloc_inv st \<longleftrightarrow>
     (\<forall>y. nextId st \<le> y \<longrightarrow> prevs (heap st y) = [] \<and> nexts (heap st y) = []) \<and>
     (\<forall>x \<in> set (effectStack st). x < nextId st) \<and>
     (\<forall>x \<in> set (queue st). x < nextId st)"

definition wf :: "state \<Rightarrow> bool" where
  "wf st \<longleftrightarrow> mirrored st \<and> sched_inv st \<and> alloc_inv st"

text \<open>The internal calls are made on objects that exist.\<close>

fun call_ok :: "call \<Rightarrow> state \<Rightarrow> bool" where
  "call_ok (NodeRun x) st = (x < nextId st)"
| "call_ok (EnsureComputed x) st = (x < nextId st)"
| "call_ok (ComputedGet x) st = (x < nextId st)"
| "call_ok (ComputedRun x) st = (x < nextId st)"
| "call_ok (EffectRun x) st = (x < nextId st)"
| "call_ok (EffectStop x) st = (x < nextId st)"
| "call_ok (SignalSet x v) st = (x < nextId st)"
| "call_ok _ st = True"

text \<open>
  The states between operations: the initial state, and every state in which a script
  started in such a state ends, by returning or by throwing.
\<close>

inductive reachable :: "state \<Rightarrow> bool" where
  reachable_init: "reachable init_state"
| reachable_exec: "reachable st \<Longrightarrow> exec n p st = Some (st', r) \<Longrightarrow> reachable st'"

text \<open>
  What a call does to the evaluation stack \<open>S\<close> it started with: restored on return, only
  extended when the call throws.
\<close>

fun stack_after :: "nid list \<Rightarrow> state \<Rightarrow> error + 'a \<Rightarrow> bool" where
  "stack_after S st' (Inr v) = (effectStack st' = S)"
| "stack_after S st' (Inl e) = (\<exists>T. effectStack st' = S @ T)"

text \<open>
  Closures that can run on the earlier version too: they never call \<open>Signal.batch\<close>. The
  translation of a call of the later version into the earlier one follows the renaming.
\<close>

primrec batch_free :: "prog \<Rightarrow> bool" where
  "batch_free (Return v) = True"
| "batch_free (ReturnFn c) = batch_free c"
| "batch_free Throw = True"
| "batch_free (Read x k) = (\<forall>v. batch_free (k v))"
| "batch_free (Peek x k) = (\<forall>v. batch_free (k v))"
| "batch_free (Write x v k) = batch_free k"
| "batch_free (Batch u k) = False"
| "batch_free (Run x k) = batch_free k"
| "batch_free (Stop x k) = batch_free k"
| "batch_free (NewSignal v k) = (\<forall>x. batch_free (k x))"
| "batch_free (NewComputed f k) = (batch_free f \<and> (\<forall>x. batch_free (k x)))"
| "batch_free (NewEffect f m k) = (batch_free f \<and> (\<forall>x. batch_free (k x)))"

fun old_call :: "call \<Rightarrow> v0_call" where
  "old_call (Exec p) = V0Exec p"
| "old_call AutoRun = V0ScheduleRun"
| "old_call (NodeRun x) = V0NodeRun x"
| "old_call (EnsureComputed x) = V0EnsureComputed x"
| "old_call (ComputedGet x) = V0ComputedGet x"
| "old_call (ComputedRun x) = V0ComputedRun x"
| "old_call (EffectRun x) = V0EffectRun x"
| "old_call (EffectStop x) = V0EffectStop x"
| "old_call (SignalSet x v) = V0SignalSet x v"
| "old_call (BatchCall u) = V0Exec (Batch u (Return None))"
| "old_call (CreateEffect f m) = V0CreateEffect f m"

fun call_batch_free :: "call \<Rightarrow> bool" where
  "call_batch_free (Exec p) = batch_free p"
| "call_batch_free (BatchCall u) = False"
| "call_batch_free (CreateEffect f m) = batch_free f"
| "call_batch_free _ = True"

definition node_closures :: "node \<Rightarrow> prog list" where
  "node_closures n =
     [computeFn n, effectFn n] @ (case destroy n of None \<Rightarrow> [] | Some c \<Rightarrow> [c])"

definition heap_batch_free :: "state \<Rightarrow> bool" where
  "heap_batch_free st \<longleftrightarrow> (\<forall>x. \<forall>p \<in> set (node_closures (heap st x)). batch_free p)"

definition no_batch :: "state \<Rightarrow> bool" where
  "no_batch st \<longleftrightarrow> \<not> batchMode st \<and> heap_batch_free st"

fun result_batch_free :: "error + result \<Rightarrow> bool" where
  "result_batch_free (Inr (RFn p)) = batch_free p"
| "result_batch_free _ = True"

section \<open>Scenarios\<close>

text \<open>
  Reading off the end of a call: the state it ends in (the initial state when the depth
  bound was reached), the record of calls, the evaluation stack, and how it ended.
\<close>

definition final_state :: "result res \<Rightarrow> state" where
  "final_state m = (case m of Some (st, r) \<Rightarrow> st | None \<Rightarrow> init_state)"

definition final_trace :: "result res \<Rightarrow> event list option" where
  "final_trace m = (case m of Some (st, r) \<Rightarrow> Some (trace st) | None \<Rightarrow> None)"

definition final_stack :: "result res \<Rightarrow> nid list option" where
  "final_stack m = (case m of Some (st, r) \<Rightarrow> Some (effectStack st) | None \<Rightarrow> None)"

definition outcome :: "result res \<Rightarrow> (error + result) option" where
  "outcome m = (case m of Some (st, r) \<Rightarrow> Some r | None \<Rightarrow> None)"

definition plus1 :: "val \<Rightarrow> val" where
  "plus1 v = (case v of None \<Rightarrow> None | Some i \<Rightarrow> Some (i + 1))"

text \<open>
  The set-up at the end of src/index.ts: \<open>num\<close> (object 0), \<open>num1\<close> (1),
  \<open>num2 = createComputed(() => num.value + 1)\<close> (2) and the effect reading \<open>num\<close> and
  \<open>num2\<close> (3).
\<close>

definition prog_setup :: "prog \<Rightarrow> prog" where
  "prog_setup rest =
     NewSignal (Some 1) (\<lambda>num. NewSignal (Some 1) (\<lambda>num1.
     NewComputed (Read num (\<lambda>v. Return (plus1 v))) (\<lambda>num2.
     NewEffect (Read num (\<lambda>_. Read num2 (\<lambda>_. Return None))) False (\<lambda>e. rest))))"

definition st_setup :: state where
  "st_setup = final_state (exec 12 (prog_setup (Return None)) init_state)"

text \<open>A Computed over one Signal, read twice in a row with no write at all.\<close>

definition prog_read_twice :: prog where
  "prog_read_twice =
     NewSignal (Some 1) (\<lambda>s.
     NewComputed (Read s (\<lambda>v. Return (plus1 v))) (\<lambda>c.
     Read c (\<lambda>a. Read c (\<lambda>b. Return b))))"

text \<open>
  Two signals, an effect reading the first one only, then two batches: the first writes
  the first signal, the second writes the second signal.
\<close>

definition prog_two_batches :: prog where
  "prog_two_batches =
     NewSignal (Some 1) (\<lambda>s1. NewSignal (Some 1) (\<lambda>s2.
     NewEffect (Read s1 (\<lambda>_. Return None)) False (\<lambda>e.
     Batch (Write s1 (Some 2) (Return None))
       (Batch (Write s2 (Some 2) (Return None)) (Return None)))))"

text \<open>
  The states in which \<open>_ensureComputed\<close> calls \<open>computeFn\<close> and \<open>Effect.run\<close> calls
  \<open>effectFn\<close>: the statements of the two methods up to the call.
\<close>

definition derivation_start :: "nid \<Rightarrow> state \<Rightarrow> state" where
  "derivation_start c st = emit (Derive c) (addCurrentEffect c (release c st))"

definition body_start :: "nid \<Rightarrow> state \<Rightarrow> state" where
  "body_start e st =
     emit (Body e) (release e (addCurrentEffect e (upd_node e (\<lambda>d. d\<lparr>running := True\<rparr>) st)))"

text \<open>A Computed (object 0) and a manual Effect (object 1) whose closures throw.\<close>

definition st_throwing :: state where
  "st_throwing =
     snd (alloc ((new_node Effect)\<lparr>effectFn := Throw, manual := True\<rparr>)
            (snd (createComputed Throw init_state)))"

text \<open>
  Two effects on one signal; the second throws once the signal holds 2. The write makes
  both pending; the drain ends in the exception with the first effect still queued.
\<close>

definition prog_pending :: prog where
  "prog_pending =
     NewSignal (Some 1) (\<lambda>s.
     NewEffect (Read s (\<lambda>_. Return None)) False (\<lambda>e1.
     NewEffect (Read s (\<lambda>v. if v = Some 2 then Throw else Return None)) False (\<lambda>e2.
     Write s (Some 2) (Return None))))"

definition st_pending :: state where
  "st_pending = final_state (exec 10 prog_pending init_state)"

text \<open>The set-up after \<open>num.dirtyDownstream()\<close>: the effect and \<open>num2\<close> are pending.\<close>

definition st_queued :: state where
  "st_queued = dirtyDownstream 0 st_setup"

text \<open>An effect (object 1) that returns a cleanup.\<close>

definition st_effect :: state where
  "st_effect =
     final_state (exec 6
       (NewSignal (Some 1) (\<lambda>s.
        NewEffect (Read s (\<lambda>_. ReturnFn (Return None))) False (\<lambda>e. Return None)))
       init_state)"

text \<open>
  An effect (object 2) whose cleanup calls \<open>stop()\<close> on the effect itself, the first time
  it runs (a flag, object 1, tells the first time from the second); the script creates the
  effect and stops it once. Every call of the script returns.
\<close>

definition prog_reentrant_cleanup :: prog where
  "prog_reentrant_cleanup =
     NewSignal (Some 1) (\<lambda>s. NewSignal (Some 0) (\<lambda>flag.
     NewEffect
       (Read s (\<lambda>_. ReturnFn
          (Peek flag (\<lambda>v. if v = Some 0 then Write flag (Some 1) (Stop 2 (Return None))
                          else Return None))))
       False (\<lambda>e. Stop e (Return None))))"

text \<open>An effect (object 1), run once, whose cleanup throws.\<close>

definition st_throwing_cleanup :: state where
  "st_throwing_cleanup =
     final_state (exec 6
       (NewSignal (Some 1) (\<lambda>s.
        NewEffect (Read s (\<lambda>_. ReturnFn Throw)) False (\<lambda>e. Return None)))
       init_state)"

section \<open>Lemmas\<close>

subsection \<open>What each step leaves alone\<close>

lemma fold_keeps:
  assumes "\<And>x s. F (f x s) = F s"
  shows "F (fold f xs s) = F s"
  using assms by (induction xs arbitrary: s) simp_all

lemma fold_invariant:
  assumes "\<And>x s. x \<in> set xs \<Longrightarrow> P s \<Longrightarrow> P (f x s)" and "P s"
  shows "P (fold f xs s)"
  using assms by (induction xs arbitrary: s) simp_all

lemma upd_node_fields [simp]:
  "heap (upd_node x f st) = (heap st)(x := f (heap st x))"
  "nextId (upd_node x f st) = nextId st"
  "effectStack (upd_node x f st) = effectStack st"
  "queueIndex (upd_node x f st) = queueIndex st"
  "queue (upd_node x f st) = queue st"
  "batchMode (upd_node x f st) = batchMode st"
  "batchQueue (upd_node x f st) = batchQueue st"
  "trace (upd_node x f st) = trace st"
  by (simp_all add: upd_node_def)

lemma emit_fields [simp]:
  "heap (emit e st) = heap st"
  "nextId (emit e st) = nextId st"
  "effectStack (emit e st) = effectStack st"
  "queueIndex (emit e st) = queueIndex st"
  "queue (emit e st) = queue st"
  "batchMode (emit e st) = batchMode st"
  "batchQueue (emit e st) = batchQueue st"
  "trace (emit e st) = trace st @ [e]"
  by (simp_all add: emit_def)

lemma addCurrentEffect_fields [simp]:
  "heap (addCurrentEffect x st) = heap st"
  "nextId (addCurrentEffect x st) = nextId st"
  "effectStack (addCurrentEffect x st) = effectStack st @ [x]"
  "queueIndex (addCurrentEffect x st) = queueIndex st"
  "queue (addCurrentEffect x st) = queue st"
  "batchMode (addCurrentEffect x st) = batchMode st"
  "batchQueue (addCurrentEffect x st) = batchQueue st"
  "trace (addCurrentEffect x st) = trace st"
  by (simp_all add: addCurrentEffect_def)

lemma popCurrentEffect_fields [simp]:
  "heap (popCurrentEffect x st) = heap st"
  "nextId (popCurrentEffect x st) = nextId st"
  "queueIndex (popCurrentEffect x st) = queueIndex st"
  "queue (popCurrentEffect x st) = queue st"
  "batchMode (popCurrentEffect x st) = batchMode st"
  "batchQueue (popCurrentEffect x st) = batchQueue st"
  "trace (popCurrentEffect x st) = trace st"
  by (simp_all add: popCurrentEffect_def)

lemma collect_fields [simp]:
  "nextId (collect x st) = nextId st"
  "effectStack (collect x st) = effectStack st"
  "queueIndex (collect x st) = queueIndex st"
  "queue (collect x st) = queue st"
  "batchMode (collect x st) = batchMode st"
  "batchQueue (collect x st) = batchQueue st"
  "trace (collect x st) = trace st"
  by (simp_all add: collect_def Let_def)

lemma release_fields [simp]:
  "nextId (release x st) = nextId st"
  "effectStack (release x st) = effectStack st"
  "queueIndex (release x st) = queueIndex st"
  "queue (release x st) = queue st"
  "batchMode (release x st) = batchMode st"
  "batchQueue (release x st) = batchQueue st"
  "trace (release x st) = trace st"
  by (simp_all add: release_def Let_def fold_keeps)

lemma updatePriority_fields [simp]:
  "nextId (updatePriority x st) = nextId st"
  "effectStack (updatePriority x st) = effectStack st"
  "queueIndex (updatePriority x st) = queueIndex st"
  "queue (updatePriority x st) = queue st"
  "batchMode (updatePriority x st) = batchMode st"
  "batchQueue (updatePriority x st) = batchQueue st"
  "trace (updatePriority x st) = trace st"
  by (simp_all add: updatePriority_def)

lemma base_run_fields [simp]:
  "nextId (base_run x st) = nextId st"
  "effectStack (base_run x st) = effectStack st"
  "queueIndex (base_run x st) = queueIndex st"
  "queue (base_run x st) = queue st"
  "batchMode (base_run x st) = batchMode st"
  "batchQueue (base_run x st) = batchQueue st"
  "trace (base_run x st) = trace st"
  by (simp_all add: base_run_def)

lemma addEffectTask_fields [simp]:
  "heap (addEffectTask n st) = heap st"
  "nextId (addEffectTask n st) = nextId st"
  "effectStack (addEffectTask n st) = effectStack st"
  "batchMode (addEffectTask n st) = batchMode st"
  "batchQueue (addEffectTask n st) = batchQueue st"
  "trace (addEffectTask n st) = trace st"
  by (simp_all add: addEffectTask_def)

lemma dirtyDownstream_fields [simp]:
  "nextId (dirtyDownstream x st) = nextId st"
  "effectStack (dirtyDownstream x st) = effectStack st"
  "batchMode (dirtyDownstream x st) = batchMode st"
  "batchQueue (dirtyDownstream x st) = batchQueue st"
  "trace (dirtyDownstream x st) = trace st @ [Notify x]"
  by (simp_all add: dirtyDownstream_def fold_keeps)

lemma alloc_fields [simp]:
  "fst (alloc nd st) = nextId st"
  "heap (snd (alloc nd st)) = (heap st)(nextId st := nd)"
  "nextId (snd (alloc nd st)) = Suc (nextId st)"
  "effectStack (snd (alloc nd st)) = effectStack st"
  "queueIndex (snd (alloc nd st)) = queueIndex st"
  "queue (snd (alloc nd st)) = queue st"
  "batchMode (snd (alloc nd st)) = batchMode st"
  "batchQueue (snd (alloc nd st)) = batchQueue st"
  "trace (snd (alloc nd st)) = trace st"
  by (simp_all add: alloc_def)

subsection \<open>Edges\<close>

lemma heap_unlink:
  "heap (fold (\<lambda>p. upd_node p (\<lambda>n. n\<lparr>nexts := removeAll x (nexts n)\<rparr>)) ps st) =
     (\<lambda>y. if y \<in> set ps then (heap st y)\<lparr>nexts := removeAll x (nexts (heap st y))\<rparr>
          else heap st y)"
  by (induction ps arbitrary: st) (auto simp: fun_eq_iff)

lemma heap_release:
  "heap (release x st) =
     (\<lambda>y. let n = (if y \<in> set (prevs (heap st x))
                    then (heap st y)\<lparr>nexts := removeAll x (nexts (heap st y))\<rparr>
                    else heap st y)
          in if y = x then n\<lparr>priority := 1, prevs := []\<rparr> else n)"
  by (auto simp: release_def Let_def heap_unlink fun_eq_iff)

lemma prevs_release [simp]:
  "prevs (heap (release x st) y) = (if y = x then [] else prevs (heap st y))"
  by (simp add: heap_release Let_def)

lemma nexts_release [simp]:
  "nexts (heap (release x st) y) =
     (if y \<in> set (prevs (heap st x)) then removeAll x (nexts (heap st y)) else nexts (heap st y))"
  by (simp add: heap_release Let_def)

lemma mirrored_release: "mirrored st \<Longrightarrow> mirrored (release x st)"
  unfolding mirrored_def by auto

lemma mirrored_collect: "mirrored st \<Longrightarrow> mirrored (collect x st)"
  unfolding mirrored_def collect_def Let_def obj_put_def by auto

lemma edges_upd_node:
  assumes "\<And>n. prevs (f n) = prevs n" "\<And>n. nexts (f n) = nexts n"
  shows "prevs (heap (upd_node x f st) y) = prevs (heap st y)"
    and "nexts (heap (upd_node x f st) y) = nexts (heap st y)"
  using assms by simp_all

lemma mirrored_upd_node:
  assumes "\<And>n. prevs (f n) = prevs n" "\<And>n. nexts (f n) = nexts n"
  shows "mirrored (upd_node x f st) = mirrored st"
  unfolding mirrored_def by (simp only: edges_upd_node[of f, OF assms])

lemma edges_dirtyDownstream [simp]:
  "prevs (heap (dirtyDownstream x st) y) = prevs (heap st y)"
  "nexts (heap (dirtyDownstream x st) y) = nexts (heap st y)"
  unfolding dirtyDownstream_def
  by (rule fold_keeps[where F = "\<lambda>s. prevs (heap s y)", THEN trans], simp, simp)
     (rule fold_keeps[where F = "\<lambda>s. nexts (heap s y)", THEN trans], simp, simp)

lemma edges_updatePriority [simp]:
  "prevs (heap (updatePriority x st) y) = prevs (heap st y)"
  "nexts (heap (updatePriority x st) y) = nexts (heap st y)"
  by (simp_all add: updatePriority_def)

lemma edges_base_run [simp]:
  "prevs (heap (base_run x st) y) = prevs (heap st y)"
  "nexts (heap (base_run x st) y) = nexts (heap st y)"
  by (simp_all add: base_run_def)

lemma mirrored_simps [simp]:
  "mirrored (emit e st) = mirrored st"
  "mirrored (addCurrentEffect x st) = mirrored st"
  "mirrored (popCurrentEffect x st) = mirrored st"
  "mirrored (updatePriority x st) = mirrored st"
  "mirrored (base_run x st) = mirrored st"
  "mirrored (dirtyDownstream x st) = mirrored st"
  "mirrored (st\<lparr>queue := q\<rparr>) = mirrored st"
  "mirrored (st\<lparr>queueIndex := qi\<rparr>) = mirrored st"
  "mirrored (st\<lparr>batchMode := b\<rparr>) = mirrored st"
  "mirrored (st\<lparr>batchQueue := bq\<rparr>) = mirrored st"
  by (simp_all add: mirrored_def)

lemma mirrored_fold_dirtyDownstream [simp]:
  "mirrored (fold dirtyDownstream xs st) = mirrored st"
  by (induction xs arbitrary: st) simp_all

lemma mirrored_alloc:
  assumes "mirrored st" "alloc_inv st" "prevs nd = []" "nexts nd = []"
  shows "mirrored (snd (alloc nd st))"
proof -
  have fresh: "prevs (heap st (nextId st)) = []" "nexts (heap st (nextId st)) = []"
    using assms(2) by (simp_all add: alloc_inv_def)
  have "nextId st \<notin> set (prevs (heap st b))" "nextId st \<notin> set (nexts (heap st b))" for b
    using assms(1) fresh unfolding mirrored_def by (metis empty_iff empty_set)+
  then show ?thesis
    using assms unfolding mirrored_def by simp
qed

subsection \<open>The pending queue\<close>

lemma sched_inv_simps [simp]:
  "sched_inv (upd_node x f st) = sched_inv st"
  "sched_inv (emit e st) = sched_inv st"
  "sched_inv (addCurrentEffect x st) = sched_inv st"
  "sched_inv (popCurrentEffect x st) = sched_inv st"
  "sched_inv (collect x st) = sched_inv st"
  "sched_inv (release x st) = sched_inv st"
  "sched_inv (updatePriority x st) = sched_inv st"
  "sched_inv (base_run x st) = sched_inv st"
  "sched_inv (snd (alloc nd st)) = sched_inv st"
  "sched_inv (st\<lparr>batchMode := b\<rparr>) = sched_inv st"
  "sched_inv (st\<lparr>batchQueue := bq\<rparr>) = sched_inv st"
  by (simp_all add: sched_inv_def)

lemma sched_inv_addEffectTask: "sched_inv st \<Longrightarrow> sched_inv (addEffectTask n st)"
  by (auto simp: sched_inv_def addEffectTask_def obj_put_def)

lemma sched_inv_dirtyDownstream: "sched_inv st \<Longrightarrow> sched_inv (dirtyDownstream x st)"
  unfolding dirtyDownstream_def
  by (rule fold_invariant) (simp_all add: sched_inv_addEffectTask)

lemma sched_inv_fold_dirtyDownstream: "sched_inv st \<Longrightarrow> sched_inv (fold dirtyDownstream xs st)"
  by (rule fold_invariant) (simp_all add: sched_inv_dirtyDownstream)

lemma set_butlast_distinct:
  "distinct xs \<Longrightarrow> xs \<noteq> [] \<Longrightarrow> set (butlast xs) = set xs - {last xs}"
  by (induction xs rule: rev_induct) auto

lemma sched_inv_dequeue:
  assumes "sched_inv st" "queue st \<noteq> []"
  defines "q \<equiv> sort_key (\<lambda>i. - priority (heap st i)) (queue st)"
  shows "sched_inv ((emit ev (st\<lparr>queue := butlast q\<rparr>))
           \<lparr>queueIndex := removeAll (last q) (queueIndex st)\<rparr>)"
proof -
  have d: "distinct q" and s: "set q = set (queue st)" and ne: "q \<noteq> []"
    using assms by (auto simp: sched_inv_def q_def) (metis length_0_conv length_sort)
  show ?thesis
    using assms(1) d s ne
    by (auto simp: sched_inv_def distinct_butlast set_butlast_distinct distinct_removeAll)
qed

subsection \<open>Existing objects\<close>

lemma queue_dirtyDownstream:
  "set (queue (dirtyDownstream x st)) \<subseteq> set (queue st) \<union> set (nexts (heap st x))"
proof -
  have "set (queue (fold (\<lambda>n s. addEffectTask n (upd_node n (\<lambda>d. d\<lparr>dirty := True\<rparr>) s)) ns s0))
          \<subseteq> set (queue s0) \<union> set ns" for ns s0
    by (induction ns arbitrary: s0) (fastforce simp: addEffectTask_def split: if_splits)+
  from this[of "nexts (heap st x)" "emit (Notify x) st"] show ?thesis
    by (simp add: dirtyDownstream_def)
qed

lemma nexts_allocated:
  assumes "mirrored st" "alloc_inv st" "b \<in> set (nexts (heap st a))"
  shows "b < nextId st"
proof (rule ccontr)
  assume "\<not> b < nextId st"
  then have "prevs (heap st b) = []" using assms(2) by (simp add: alloc_inv_def)
  moreover have "a \<in> set (prevs (heap st b))" using assms(1,3) by (simp add: mirrored_def)
  ultimately show False by simp
qed

lemma alloc_inv_simps [simp]:
  "alloc_inv (emit e st) = alloc_inv st"
  "alloc_inv (updatePriority x st) = alloc_inv st"
  "alloc_inv (base_run x st) = alloc_inv st"
  "alloc_inv (st\<lparr>batchMode := b\<rparr>) = alloc_inv st"
  "alloc_inv (st\<lparr>batchQueue := bq\<rparr>) = alloc_inv st"
  by (simp_all add: alloc_inv_def)

lemma alloc_inv_upd_node:
  assumes "\<And>n. prevs (f n) = prevs n" "\<And>n. nexts (f n) = nexts n"
  shows "alloc_inv (upd_node x f st) = alloc_inv st"
proof -
  have "prevs (heap (upd_node x f st) y) = prevs (heap st y)"
       "nexts (heap (upd_node x f st) y) = nexts (heap st y)" for y
    using assms by simp_all
  then show ?thesis
    unfolding alloc_inv_def by (simp del: upd_node_fields(1) add: upd_node_fields(2-))
qed

lemma alloc_inv_push: "alloc_inv st \<Longrightarrow> x < nextId st \<Longrightarrow> alloc_inv (addCurrentEffect x st)"
  by (simp add: alloc_inv_def)

lemma alloc_inv_pop: "alloc_inv st \<Longrightarrow> alloc_inv (popCurrentEffect x st)"
  by (auto simp: alloc_inv_def popCurrentEffect_def dest: in_set_butlastD)

lemma alloc_inv_release: "alloc_inv st \<Longrightarrow> alloc_inv (release x st)"
  by (simp add: alloc_inv_def)

lemma alloc_inv_collect:
  assumes a: "alloc_inv st" and x: "x < nextId st"
  shows "alloc_inv (collect x st)"
proof (cases "effectStack st = []")
  case True
  then show ?thesis using a by (simp add: collect_def)
next
  case False
  from False a have l: "last (effectStack st) < nextId st"
    using last_in_set[of "effectStack st"] by (simp add: alloc_inv_def)
  have "\<not> nextId st \<le> last (effectStack st)" "\<not> nextId st \<le> x"
    using l x by simp_all
  with a False show ?thesis
    by (auto simp: alloc_inv_def collect_def Let_def obj_put_def)
qed

lemma alloc_inv_dirtyDownstream:
  assumes "mirrored st" "alloc_inv st"
  shows "alloc_inv (dirtyDownstream x st)"
  using assms queue_dirtyDownstream[of x st] nexts_allocated[OF assms]
  by (auto simp: alloc_inv_def)

lemma alloc_inv_fold_dirtyDownstream:
  "mirrored st \<Longrightarrow> alloc_inv st \<Longrightarrow> alloc_inv (fold dirtyDownstream xs st)"
  by (induction xs arbitrary: st) (simp_all add: alloc_inv_dirtyDownstream)

lemma alloc_inv_alloc:
  assumes "alloc_inv st" "prevs nd = []" "nexts nd = []"
  shows "alloc_inv (snd (alloc nd st))"
  using assms by (auto simp: alloc_inv_def less_Suc_eq)

lemma alloc_inv_dequeue:
  assumes "alloc_inv st"
  shows "alloc_inv ((emit ev (st\<lparr>queue := butlast (sort_key k (queue st))\<rparr>))\<lparr>queueIndex := qi\<rparr>)"
  using assms by (auto simp: alloc_inv_def dest!: in_set_butlastD)

subsection \<open>Every call keeps the state well-formed\<close>

lemma and_then_Some:
  "and_then m k = Some (st', r) \<longleftrightarrow>
     (\<exists>e. m = Some (st', Inl e) \<and> r = Inl e) \<or>
     (\<exists>st1 v. m = Some (st1, Inr v) \<and> k v st1 = Some (st', r))"
  by (auto simp: and_then_def split: option.splits sum.splits)

lemma wf_simps [simp]:
  "wf (emit e st) = wf st"
  "wf (updatePriority x st) = wf st"
  "wf (base_run x st) = wf st"
  "wf (st\<lparr>batchMode := b\<rparr>) = wf st"
  "wf (st\<lparr>batchQueue := bq\<rparr>) = wf st"
  "wf (upd_node x (\<lambda>d. d\<lparr>node_value := v\<rparr>) st) = wf st"
  "wf (upd_node x (\<lambda>d. d\<lparr>running := True\<rparr>) st) = wf st"
  "wf (upd_node x (\<lambda>d. d\<lparr>destroy := c\<rparr>) st) = wf st"
  "wf (upd_node x (\<lambda>d. d\<lparr>destroy := None, running := False\<rparr>) st) = wf st"
  by (simp_all add: wf_def mirrored_upd_node alloc_inv_upd_node)

lemma wf_intros:
  "wf st \<Longrightarrow> wf (popCurrentEffect x st)"
  "wf st \<Longrightarrow> wf (release x st)"
  "wf st \<Longrightarrow> wf (dirtyDownstream x st)"
  "wf st \<Longrightarrow> wf (fold dirtyDownstream xs st)"
  "wf st \<Longrightarrow> x < nextId st \<Longrightarrow> wf (collect x st)"
  "wf st \<Longrightarrow> x < nextId st \<Longrightarrow> wf (addCurrentEffect x st)"
  by (simp_all add: wf_def alloc_inv_pop mirrored_release alloc_inv_release
        sched_inv_dirtyDownstream alloc_inv_dirtyDownstream sched_inv_fold_dirtyDownstream
        alloc_inv_fold_dirtyDownstream mirrored_collect alloc_inv_collect alloc_inv_push)

lemma wf_alloc:
  "wf st \<Longrightarrow> prevs nd = [] \<Longrightarrow> nexts nd = [] \<Longrightarrow> wf (snd (alloc nd st))"
  by (simp add: wf_def mirrored_alloc alloc_inv_alloc)

lemma nextId_fold_dirtyDownstream [simp]:
  "nextId (fold dirtyDownstream xs st) = nextId st"
  by (rule fold_keeps) simp

lemma wf_dequeue:
  assumes "wf st" "queue st \<noteq> []"
  shows "wf ((emit ev (st\<lparr>queue := butlast (sort_key (\<lambda>i. - priority (heap st i)) (queue st))\<rparr>))
           \<lparr>queueIndex := removeAll (last (sort_key (\<lambda>i. - priority (heap st i)) (queue st)))
                             (queueIndex st)\<rparr>)"
  using assms sched_inv_dequeue[where st = st and ev = ev]
    alloc_inv_dequeue[where st = st and ev = ev]
  by (simp add: wf_def)

lemma dequeue_allocated:
  assumes "wf st" "queue st \<noteq> []"
  shows "last (sort_key k (queue st)) < nextId st"
proof -
  have "sort_key k (queue st) \<noteq> []" using assms(2) by (metis length_0_conv length_sort)
  then have "last (sort_key k (queue st)) \<in> set (queue st)"
    using last_in_set[of "sort_key k (queue st)"] by simp
  then show ?thesis using assms(1) by (simp add: wf_def alloc_inv_def)
qed

lemma alloc_eq: "alloc nd st = (x, st1) \<longleftrightarrow> x = nextId st \<and> st1 = snd (alloc nd st)"
  by (auto simp: alloc_def)

lemmas run_unfold = and_then_Some ret_def void_def throw_def signal_value_get_def
  signal_peek_def computed_peek_def Let_def createSignal_def createComputed_def

lemma run_wf:
  "wf st \<Longrightarrow> call_ok c st \<Longrightarrow> run n c st = Some (st', r) \<Longrightarrow> wf st' \<and> nextId st \<le> nextId st'"
proof (induction n arbitrary: c st st' r)
  case 0
  then show ?case by simp
next
  case (Suc n)
  have IH: "\<And>c st st' r. run n c st = Some (st', r) \<Longrightarrow> wf st \<Longrightarrow> call_ok c st
              \<Longrightarrow> wf st' \<and> nextId st \<le> nextId st'"
    using Suc.IH by blast
  show ?case
  proof (cases c)
    case (Exec p)
    show ?thesis
    proof (cases p)
      case (Return v)
      then show ?thesis using Suc.prems Exec by (simp add: run_unfold)
    next
      case (ReturnFn f)
      then show ?thesis using Suc.prems Exec by (simp add: run_unfold)
    next
      case Throw
      then show ?thesis using Suc.prems Exec by (simp add: run_unfold)
    next
      case (Read x k)
      then show ?thesis using Suc.prems Exec
        by (auto simp: run_unfold wf_intros split: if_splits kind.splits dest!: IH)
    next
      case (Peek x k)
      then show ?thesis using Suc.prems Exec
        by (auto simp: run_unfold wf_intros split: if_splits kind.splits dest!: IH)
    next
      case (Write x v k)
      then show ?thesis using Suc.prems Exec
        by (auto simp: run_unfold wf_intros split: if_splits kind.splits dest!: IH)
    next
      case (Batch u k)
      then show ?thesis using Suc.prems Exec
        by (auto simp: run_unfold wf_intros split: if_splits kind.splits dest!: IH)
    next
      case (Run x k)
      then show ?thesis using Suc.prems Exec
        by (auto simp: run_unfold wf_intros split: if_splits kind.splits dest!: IH)
    next
      case (Stop x k)
      then show ?thesis using Suc.prems Exec
        by (auto simp: run_unfold wf_intros split: if_splits kind.splits dest!: IH)
    next
      case (NewSignal v k)
      then show ?thesis using Suc.prems Exec
        by (auto simp: run_unfold wf_intros wf_alloc new_node_def alloc_eq split: prod.splits
                 dest!: IH)
    next
      case (NewComputed f k)
      then show ?thesis using Suc.prems Exec
        by (auto simp: run_unfold wf_intros wf_alloc new_node_def alloc_eq split: prod.splits
                 dest!: IH)
    next
      case (NewEffect f m k)
      then show ?thesis using Suc.prems Exec
        by (auto simp: run_unfold wf_intros split: if_splits kind.splits dest!: IH)
    qed
  next
    case AutoRun
    then show ?thesis using Suc.prems
      by (auto simp: run_unfold wf_intros wf_dequeue dequeue_allocated
               split: if_splits dest!: IH)
  next
    case (NodeRun x)
    then show ?thesis using Suc.prems
      by (auto simp: run_unfold wf_intros split: if_splits kind.splits dest!: IH)
  next
    case (EnsureComputed x)
    then show ?thesis using Suc.prems
      by (auto simp: run_unfold wf_intros split: if_splits kind.splits dest!: IH)
  next
    case (ComputedGet x)
    then show ?thesis using Suc.prems
      by (auto simp: run_unfold wf_intros split: if_splits kind.splits dest!: IH)
  next
    case (ComputedRun x)
    then show ?thesis using Suc.prems
      by (auto simp: run_unfold wf_intros split: if_splits kind.splits dest!: IH)
  next
    case (EffectRun x)
    then show ?thesis using Suc.prems
      by (auto simp: run_unfold wf_intros split: if_splits kind.splits dest!: IH)
  next
    case (EffectStop x)
    then show ?thesis using Suc.prems
      by (auto simp: run_unfold wf_intros split: if_splits kind.splits option.splits dest!: IH)
  next
    case (SignalSet x v)
    then show ?thesis using Suc.prems
      by (auto simp: run_unfold wf_intros split: if_splits kind.splits dest!: IH)
  next
    case (BatchCall u)
    then show ?thesis using Suc.prems
      by (auto simp: run_unfold wf_intros split: if_splits kind.splits dest!: IH)
  next
    case (CreateEffect f m)
    then show ?thesis using Suc.prems
      by (auto simp: run_unfold wf_intros wf_alloc new_node_def alloc_eq
               split: if_splits prod.splits dest!: IH)
  qed
qed

subsection \<open>The two versions\<close>

lemma no_batch_upd_node:
  assumes "\<And>n. node_closures (f n) = node_closures n"
  shows "no_batch (upd_node x f st) = no_batch st"
proof -
  have "node_closures (heap (upd_node x f st) y) = node_closures (heap st y)" for y
    using assms by simp
  then show ?thesis
    unfolding no_batch_def heap_batch_free_def
    by (simp del: upd_node_fields(1) add: upd_node_fields(2-))
qed

lemma no_batch_fold:
  assumes "\<And>x s. no_batch (f x s) = no_batch s"
  shows "no_batch (fold f xs s) = no_batch s"
  using assms by (induction xs arbitrary: s) simp_all

lemma no_batch_simps [simp]:
  "no_batch (emit e st) = no_batch st"
  "no_batch (addCurrentEffect x st) = no_batch st"
  "no_batch (popCurrentEffect x st) = no_batch st"
  "no_batch (addEffectTask x st) = no_batch st"
  "no_batch (st\<lparr>queue := q\<rparr>) = no_batch st"
  "no_batch (st\<lparr>queueIndex := qi\<rparr>) = no_batch st"
  by (simp_all add: no_batch_def heap_batch_free_def)

lemma no_batch_prims [simp]:
  "no_batch (collect x st) = no_batch st"
  "no_batch (updatePriority x st) = no_batch st"
  "no_batch (base_run x st) = no_batch st"
  "no_batch (release x st) = no_batch st"
  "no_batch (dirtyDownstream x st) = no_batch st"
  "no_batch (upd_node x (\<lambda>d. d\<lparr>node_value := v\<rparr>) st) = no_batch st"
  "no_batch (upd_node x (\<lambda>d. d\<lparr>running := b\<rparr>) st) = no_batch st"
  by (simp_all add: collect_def Let_def updatePriority_def base_run_def release_def
        dirtyDownstream_def no_batch_upd_node no_batch_fold node_closures_def)

lemma no_batch_alloc:
  "no_batch st \<Longrightarrow> batch_free (computeFn nd) \<Longrightarrow> batch_free (effectFn nd) \<Longrightarrow>
   destroy nd = None \<Longrightarrow> no_batch (snd (alloc nd st))"
  by (simp add: no_batch_def heap_batch_free_def node_closures_def)

lemma no_batch_destroy:
  "no_batch st \<Longrightarrow> (\<And>p. c = Some p \<Longrightarrow> batch_free p) \<Longrightarrow>
   no_batch (upd_node x (\<lambda>d. d\<lparr>destroy := c\<rparr>) st)"
  by (auto simp: no_batch_def heap_batch_free_def node_closures_def split: option.splits)

lemma no_batch_stop:
  "no_batch st \<Longrightarrow> no_batch (upd_node x (\<lambda>d. d\<lparr>destroy := None, running := False\<rparr>) st)"
  by (auto simp: no_batch_def heap_batch_free_def node_closures_def split: option.splits)

lemma no_batch_closures:
  "no_batch st \<Longrightarrow> batch_free (computeFn (heap st x))"
  "no_batch st \<Longrightarrow> batch_free (effectFn (heap st x))"
  "no_batch st \<Longrightarrow> destroy (heap st x) = Some c \<Longrightarrow> batch_free c"
  "no_batch st \<Longrightarrow> \<not> batchMode st"
proof -
  assume a: "no_batch st"
  then have h: "\<forall>p \<in> set (node_closures (heap st x)). batch_free p"
    by (simp add: no_batch_def heap_batch_free_def)
  show "batch_free (computeFn (heap st x))" "batch_free (effectFn (heap st x))"
    using h by (simp_all add: node_closures_def)
  show "\<not> batchMode st" using a by (simp add: no_batch_def)
  show "batch_free c" if "destroy (heap st x) = Some c"
    using h that by (simp add: node_closures_def)
qed

lemma cleanup_batch_free:
  "result_batch_free (Inr r) \<Longrightarrow> (case r of RFn c \<Rightarrow> Some c | _ \<Rightarrow> None) = Some p
   \<Longrightarrow> batch_free p"
  by (cases r) auto

lemma effectFn_release [simp]: "effectFn (heap (release x st) y) = effectFn (heap st y)"
  by (simp add: heap_release Let_def)

lemma run_no_batch:
  "no_batch st \<Longrightarrow> call_batch_free c \<Longrightarrow> run n c st = Some (st', r)
   \<Longrightarrow> no_batch st' \<and> result_batch_free r"
proof (induction n arbitrary: c st st' r)
  case 0
  then show ?case by simp
next
  case (Suc n)
  have IH: "\<And>c st st' r. run n c st = Some (st', r) \<Longrightarrow> no_batch st \<Longrightarrow> call_batch_free c
              \<Longrightarrow> no_batch st' \<and> result_batch_free r"
    using Suc.IH by blast
  show ?case
  proof (cases c)
    case (Exec p)
    show ?thesis
      using Suc.prems Exec
      by (cases p)
         (auto simp: run_unfold no_batch_closures no_batch_alloc new_node_def alloc_eq
               split: if_splits kind.splits prod.splits dest!: IH)
  next
    case AutoRun
    then show ?thesis using Suc.prems
      by (auto simp: run_unfold split: if_splits dest!: IH)
  next
    case (NodeRun x)
    then show ?thesis using Suc.prems
      by (auto simp: run_unfold split: if_splits kind.splits dest!: IH)
  next
    case (EnsureComputed x)
    then show ?thesis using Suc.prems
      by (auto simp: run_unfold no_batch_closures split: if_splits kind.splits dest!: IH)
  next
    case (ComputedGet x)
    then show ?thesis using Suc.prems
      by (auto simp: run_unfold split: if_splits kind.splits dest!: IH)
  next
    case (ComputedRun x)
    then show ?thesis using Suc.prems
      by (auto simp: run_unfold split: if_splits kind.splits dest!: IH)
  next
    case (EffectRun x)
    then show ?thesis using Suc.prems
      by (auto simp: run_unfold no_batch_closures
               split: if_splits kind.splits dest!: IH
               intro!: no_batch_destroy elim: cleanup_batch_free)
  next
    case (EffectStop x)
    then show ?thesis using Suc.prems
      by (auto simp: run_unfold no_batch_closures no_batch_stop
               split: if_splits kind.splits option.splits dest!: IH)
  next
    case (SignalSet x v)
    then show ?thesis using Suc.prems
      by (auto simp: run_unfold no_batch_closures split: if_splits kind.splits dest!: IH)
  next
    case (BatchCall u)
    then show ?thesis using Suc.prems by simp
  next
    case (CreateEffect f m)
    then show ?thesis using Suc.prems
      by (auto simp: run_unfold no_batch_alloc new_node_def alloc_eq
               split: if_splits prod.splits dest!: IH)
  qed
qed

lemma v0_add_eq: "v0_add = addEffectTask"
  by (simp add: fun_eq_iff v0_add_def addEffectTask_def)

lemma v0_mark_downstream_eq: "v0_mark_downstream = dirtyDownstream"
  by (simp add: fun_eq_iff v0_mark_downstream_def dirtyDownstream_def v0_add_eq)

lemma and_then_sim:
  assumes "m0 = m" and "\<And>st1 v. m = Some (st1, Inr v) \<Longrightarrow> k0 v st1 = k v st1"
  shows "and_then m0 k0 = and_then m k"
  using assms by (auto simp: and_then_def split: option.splits sum.splits)

lemma v0_run_eq_run:
  "no_batch st \<Longrightarrow> call_batch_free c \<Longrightarrow> v0_run n (old_call c) st = run n c st"
proof (induction n arbitrary: c st)
  case 0
  then show ?case by (cases c) simp_all
next
  case (Suc n)
  have nb: "\<And>c st st' r. run n c st = Some (st', r) \<Longrightarrow> no_batch st \<Longrightarrow> call_batch_free c
              \<Longrightarrow> no_batch st' \<and> result_batch_free r"
    using run_no_batch by blast
  have IHs:
    "\<And>st p. no_batch st \<Longrightarrow> batch_free p \<Longrightarrow> v0_run n (V0Exec p) st = run n (Exec p) st"
    "\<And>st. no_batch st \<Longrightarrow> v0_run n V0ScheduleRun st = run n AutoRun st"
    "\<And>st x. no_batch st \<Longrightarrow> v0_run n (V0NodeRun x) st = run n (NodeRun x) st"
    "\<And>st x. no_batch st \<Longrightarrow> v0_run n (V0EnsureComputed x) st = run n (EnsureComputed x) st"
    "\<And>st x. no_batch st \<Longrightarrow> v0_run n (V0ComputedGet x) st = run n (ComputedGet x) st"
    "\<And>st x. no_batch st \<Longrightarrow> v0_run n (V0ComputedRun x) st = run n (ComputedRun x) st"
    "\<And>st x. no_batch st \<Longrightarrow> v0_run n (V0EffectRun x) st = run n (EffectRun x) st"
    "\<And>st x. no_batch st \<Longrightarrow> v0_run n (V0EffectStop x) st = run n (EffectStop x) st"
    "\<And>st x v. no_batch st \<Longrightarrow> v0_run n (V0SignalSet x v) st = run n (SignalSet x v) st"
    "\<And>st f m. no_batch st \<Longrightarrow> batch_free f
        \<Longrightarrow> v0_run n (V0CreateEffect f m) st = run n (CreateEffect f m) st"
    using Suc.IH[of _ "Exec _"] Suc.IH[of _ AutoRun] Suc.IH[of _ "NodeRun _"]
      Suc.IH[of _ "EnsureComputed _"] Suc.IH[of _ "ComputedGet _"] Suc.IH[of _ "ComputedRun _"]
      Suc.IH[of _ "EffectRun _"] Suc.IH[of _ "EffectStop _"] Suc.IH[of _ "SignalSet _ _"]
      Suc.IH[of _ "CreateEffect _ _"]
    by simp_all
  show ?case
  proof (cases c)
    case (Exec p)
    show ?thesis
      using Suc.prems Exec
      by (cases p)
         (auto simp: IHs run_unfold no_batch_alloc new_node_def alloc_eq
               split: if_splits kind.splits prod.splits
               intro!: and_then_sim dest!: nb)
  next
    case AutoRun
    then show ?thesis using Suc.prems
      by (auto simp: IHs Let_def intro!: and_then_sim dest!: nb)
  next
    case (NodeRun x)
    then show ?thesis using Suc.prems
      by (auto simp: IHs split: kind.splits)
  next
    case (EnsureComputed x)
    then show ?thesis using Suc.prems
      by (auto simp: IHs no_batch_closures intro!: and_then_sim)
  next
    case (ComputedGet x)
    then show ?thesis using Suc.prems
      by (auto simp: IHs intro!: and_then_sim)
  next
    case (ComputedRun x)
    then show ?thesis using Suc.prems
      by (auto simp: IHs v0_mark_downstream_eq intro!: and_then_sim dest!: nb)
  next
    case (EffectRun x)
    then show ?thesis using Suc.prems
      by (auto simp: IHs Let_def no_batch_closures intro!: and_then_sim)
  next
    case (EffectStop x)
    then show ?thesis using Suc.prems
      by (auto simp: IHs no_batch_closures split: option.splits intro!: and_then_sim)
  next
    case (SignalSet x v)
    then show ?thesis using Suc.prems
      by (auto simp: IHs Let_def v0_mark_downstream_eq no_batch_closures)
  next
    case (BatchCall u)
    then show ?thesis using Suc.prems by simp
  next
    case (CreateEffect f m)
    then show ?thesis using Suc.prems
      by (auto simp: IHs run_unfold no_batch_alloc new_node_def alloc_eq
               split: prod.splits intro!: and_then_sim)
  qed
qed

subsection \<open>States between operations\<close>

lemma wf_init: "wf init_state"
  by (simp add: wf_def mirrored_def sched_inv_def alloc_inv_def init_state_def new_node_def)

lemma reachable_wf: "reachable st \<Longrightarrow> wf st"
proof (induction rule: reachable.induct)
  case reachable_init
  show ?case by (rule wf_init)
next
  case (reachable_exec st n p st' r)
  then show ?case using run_wf[of st "Exec p" n st' r] by simp
qed

subsection \<open>The evaluation stack\<close>

lemma effectStack_fold_dirtyDownstream [simp]:
  "effectStack (fold dirtyDownstream xs st) = effectStack st"
  by (rule fold_keeps) simp

lemma effectStack_pop_push [simp]:
  "effectStack (popCurrentEffect x st) =
     (if effectStack st \<noteq> [] \<and> last (effectStack st) = x then butlast (effectStack st)
      else effectStack st)"
  by (simp add: popCurrentEffect_def)

lemma run_stack: "run n c st = Some (st', r) \<Longrightarrow> stack_after (effectStack st) st' r"
proof (induction n arbitrary: c st st' r)
  case 0
  then show ?case by simp
next
  case (Suc n)
  have IH: "\<And>c st st' r. run n c st = Some (st', r) \<Longrightarrow> stack_after (effectStack st) st' r"
    using Suc.IH by blast
  show ?case
  proof (cases c)
    case (Exec p)
    show ?thesis
      using Suc.prems Exec
      by (cases p)
         (auto simp: run_unfold alloc_eq split: if_splits kind.splits prod.splits dest!: IH)
  next
    case AutoRun
    then show ?thesis using Suc.prems
      by (auto simp: run_unfold split: if_splits dest!: IH)
  next
    case (NodeRun x)
    then show ?thesis using Suc.prems
      by (auto simp: run_unfold split: if_splits kind.splits dest!: IH)
  next
    case (EnsureComputed x)
    then show ?thesis using Suc.prems
      by (auto simp: run_unfold split: if_splits dest!: IH)
  next
    case (ComputedGet x)
    then show ?thesis using Suc.prems
      by (auto simp: run_unfold split: if_splits dest!: IH)
  next
    case (ComputedRun x)
    then show ?thesis using Suc.prems
      by (auto simp: run_unfold split: if_splits dest!: IH)
  next
    case (EffectRun x)
    then show ?thesis using Suc.prems
      by (auto simp: run_unfold split: if_splits dest!: IH)
  next
    case (EffectStop x)
    then show ?thesis using Suc.prems
      by (auto simp: run_unfold split: if_splits option.splits dest!: IH)
  next
    case (SignalSet x v)
    then show ?thesis using Suc.prems
      by (auto simp: run_unfold split: if_splits dest!: IH)
  next
    case (BatchCall u)
    then show ?thesis using Suc.prems
      by (auto simp: run_unfold split: if_splits dest!: IH)
  next
    case (CreateEffect f m)
    then show ?thesis using Suc.prems
      by (auto simp: run_unfold alloc_eq split: if_splits prod.splits dest!: IH)
  qed
qed

lemma effectFn_pre [simp]:
  "effectFn (heap (release e (addCurrentEffect e (upd_node e (\<lambda>d. d\<lparr>running := True\<rparr>) st))) e)
     = effectFn (heap st e)"
  by (simp add: heap_release Let_def)

subsection \<open>Marking downstream\<close>

lemma marks_fold:
  "d \<in> set ns \<or> (dirty (heap s d) \<and> d \<in> set (queueIndex s)) \<Longrightarrow>
   dirty (heap (fold (\<lambda>n s. addEffectTask n (upd_node n (\<lambda>d. d\<lparr>dirty := True\<rparr>) s)) ns s) d) \<and>
   d \<in> set (queueIndex (fold (\<lambda>n s. addEffectTask n (upd_node n (\<lambda>d. d\<lparr>dirty := True\<rparr>) s)) ns s))"
proof (induction ns arbitrary: s)
  case Nil
  then show ?case by simp
next
  case (Cons a ns)
  show ?case
    unfolding fold_simps
    by (rule Cons.IH) (use Cons.prems in \<open>auto simp: addEffectTask_def obj_put_def\<close>)
qed

lemma dirtyDownstream_marks:
  "d \<in> set (nexts (heap st x)) \<Longrightarrow>
   dirty (heap (dirtyDownstream x st) d) \<and> d \<in> set (queueIndex (dirtyDownstream x st))"
  unfolding dirtyDownstream_def by (rule marks_fold) simp

lemma node_value_dirtyDownstream [simp]:
  "node_value (heap (dirtyDownstream x st) y) = node_value (heap st y)"
  unfolding dirtyDownstream_def
  by (rule fold_keeps[where F = "\<lambda>s. node_value (heap s y)", THEN trans]) simp_all

subsection \<open>The drain\<close>

lemma last_sort_key_min:
  assumes "xs \<noteq> []"
  shows "\<forall>m \<in> set xs. f (last (sort_key (\<lambda>i. - f i) xs)) \<le> (f m :: int)"
proof -
  let ?s = "sort_key (\<lambda>i. - f i) xs"
  have ne: "?s \<noteq> []" using assms by (metis length_0_conv length_sort)
  have srt: "sorted (map (\<lambda>i. - f i) ?s)" by simp
  have "\<forall>y \<in> set ?s. - f y \<le> - f (last ?s)"
  proof
    fix y assume "y \<in> set ?s"
    then obtain i where i: "i < length ?s" "?s ! i = y" by (metis in_set_conv_nth)
    have "map (\<lambda>i. - f i) ?s ! i \<le> map (\<lambda>i. - f i) ?s ! (length ?s - 1)"
      using srt i(1) by (intro sorted_nth_mono) auto
    then show "- f y \<le> - f (last ?s)"
      using i ne by (simp add: last_conv_nth)
  qed
  then show ?thesis by simp
qed

lemma autoRun_drains: "autoRun n st = Some (st', Inr v) \<Longrightarrow> queue st' = []"
proof (induction n arbitrary: st)
  case 0
  then show ?case by simp
next
  case (Suc n)
  then show ?case
    by (auto simp: and_then_Some void_def Let_def split: if_splits)
qed

subsection \<open>The depth bound\<close>

text \<open>A call that finishes within a bound finishes in the same way within any larger one.\<close>

lemma and_then_mono:
  assumes "and_then m k = Some r"
    and "\<And>r1. m = Some r1 \<Longrightarrow> m' = Some r1"
    and "\<And>st1 v. m = Some (st1, Inr v) \<Longrightarrow> k v st1 = Some r \<Longrightarrow> k' v st1 = Some r"
  shows "and_then m' k' = Some r"
  using assms by (cases r) (fastforce simp: and_then_def split: option.splits sum.splits)

lemma run_Suc: "run n c st = Some r \<Longrightarrow> run (Suc n) c st = Some r"
proof (induction n arbitrary: c st r)
  case 0
  then show ?case by simp
next
  case (Suc n)
  define m where "m = Suc n"
  have IH: "\<And>c st r. run n c st = Some r \<Longrightarrow> run m c st = Some r"
    using Suc.IH by (simp add: m_def)
  have "run (Suc m) c st = Some r"
  proof (cases c)
    case (Exec p)
    show ?thesis
      using Suc.prems Exec
      by (cases p)
         (auto simp: IH split: if_splits kind.splits prod.splits elim!: and_then_mono)
  next
    case AutoRun
    then show ?thesis using Suc.prems
      by (auto simp: IH Let_def split: if_splits elim!: and_then_mono)
  next
    case (NodeRun x)
    then show ?thesis using Suc.prems
      by (auto simp: IH split: kind.splits)
  next
    case (EnsureComputed x)
    then show ?thesis using Suc.prems
      by (auto simp: IH split: if_splits elim!: and_then_mono)
  next
    case (ComputedGet x)
    then show ?thesis using Suc.prems
      by (auto simp: IH elim!: and_then_mono)
  next
    case (ComputedRun x)
    then show ?thesis using Suc.prems
      by (auto simp: IH elim!: and_then_mono)
  next
    case (EffectRun x)
    then show ?thesis using Suc.prems
      by (auto simp: IH Let_def elim!: and_then_mono)
  next
    case (EffectStop x)
    then show ?thesis using Suc.prems
      by (auto simp: IH split: if_splits option.splits elim!: and_then_mono)
  next
    case (SignalSet x v)
    then show ?thesis using Suc.prems
      by (auto simp: IH Let_def split: if_splits)
  next
    case (BatchCall u)
    then show ?thesis using Suc.prems
      by (auto simp: IH Let_def elim!: and_then_mono)
  next
    case (CreateEffect f m)
    then show ?thesis using Suc.prems
      by (auto simp: IH split: if_splits prod.splits elim!: and_then_mono)
  qed
  then show ?case unfolding m_def .
qed

lemma run_more: "run n c st = Some r \<Longrightarrow> run (n + k) c st = Some r"
  by (induction k) (simp_all add: run_Suc)

subsection \<open>Evaluating scenarios\<close>

text \<open>
  Closed calls are evaluated by rewriting with the defining equations. The continuation of
  \<open>and_then\<close> is left alone until its first argument is a result.
\<close>

lemma and_then_weak_cong: "m = m' \<Longrightarrow> and_then m k = and_then m' k"
  by simp

lemma and_then_simps:
  "and_then None k = None"
  "and_then (Some (st, Inl e)) k = Some (st, Inl e)"
  "and_then (Some (st, Inr v)) k = k v st"
  by (simp_all add: and_then_def)

lemmas run_numeral = run.simps(2-)[of "pred_numeral k" for k, folded numeral_eq_Suc]

lemmas eval_defs = run_numeral and_then_simps ret_def void_def throw_def obj_put_def upd_node_def
  emit_def addCurrentEffect_def popCurrentEffect_def collect_def release_def updatePriority_def
  base_run_def addEffectTask_def dirtyDownstream_def new_node_def alloc_def createSignal_def
  createComputed_def signal_value_get_def signal_peek_def computed_peek_def init_state_def Let_def
  final_state_def final_trace_def final_stack_def outcome_def plus1_def

lemma final_eq: "outcome m = Some r \<Longrightarrow> m = Some (final_state m, r)"
  by (auto simp: outcome_def final_state_def split: option.splits)

lemma reachable_final: "reachable st \<Longrightarrow> reachable (final_state (exec n p st))"
  by (auto simp: final_state_def split: option.splits intro: reachable.intros)

lemma no_batch_init: "no_batch init_state"
  by (simp add: no_batch_def heap_batch_free_def node_closures_def init_state_def new_node_def)

lemma no_batch_final:
  "batch_free p \<Longrightarrow> no_batch (final_state (exec n p init_state))"
  using run_no_batch[of init_state "Exec p" n]
  by (auto simp: final_state_def no_batch_init split: option.splits)

lemma st_setup_heap:
  "prevs (heap st_setup 0) = []" "nexts (heap st_setup 0) = [3, 2]"
  "prevs (heap st_setup 2) = [0]" "nexts (heap st_setup 2) = [3]"
  "prevs (heap st_setup 3) = [0, 2]" "nexts (heap st_setup 3) = []"
  "priority (heap st_setup 2) = 1" "priority (heap st_setup 3) = 2"
  "node_value (heap st_setup 0) = Some 1"
  by (simp_all add: st_setup_def prog_setup_def eval_defs cong: and_then_weak_cong)

lemma st_setup_fields:
  "effectStack st_setup = []" "queue st_setup = []" "queueIndex st_setup = []"
  "\<not> batchMode st_setup" "trace st_setup = [Body 3, Derive 2]"
  by (simp_all add: st_setup_def prog_setup_def eval_defs cong: and_then_weak_cong)

lemma st_effect_fields:
  "running (heap st_effect 1)"
  "final_trace (effect_stop 2 1 st_effect) = Some [Body 1, Cleanup 1]"
  "outcome (effect_stop 2 1 st_effect) = Some (Inr (RVal None))"
  by (simp_all add: st_effect_def eval_defs cong: and_then_weak_cong)

lemma st_queued_fields:
  "queue st_queued = [3, 2]" "queueIndex st_queued = [3, 2]"
  "priority (heap st_queued 3) = 2" "priority (heap st_queued 2) = 1"
  "final_trace (autoRun 10 st_queued)
     = Some [Body 3, Derive 2, Notify 0, SchedRun 2, Derive 2, Notify 2, SchedRun 3, Body 3]"
  "outcome (autoRun 10 st_queued) = Some (Inr (RVal None))"
  by (simp_all add: st_queued_def st_setup_def prog_setup_def eval_defs cong: and_then_weak_cong)

section \<open>The claims\<close>

subsection \<open>C1: a clean Computed does not derive again\<close>

text \<open>
  C1 says that reading \<open>c.value\<close> twice with no write in between calls the derivation at
  most once, because a read leaves \<open>dirty\<close> false. In the source only \<open>run()\<close>, the
  scheduler's entry, clears the flag (through \<open>super.run()\<close>); \<open>_ensureComputed\<close> and the
  getter do not. A Computed is created dirty, so until the scheduler has run it once every
  read derives again. C1 on \<open>prog_read_twice\<close>: the script makes no write, the Computed
  (object 1) is derived twice, once per read, and is still dirty when the script ends.
\<close>

theorem computed_read_twice_derives_twice:
  "final_trace (exec (8 + k) prog_read_twice init_state) = Some [Derive 1, Derive 1] \<and>
   outcome (exec (8 + k) prog_read_twice init_state) = Some (Inr (RVal (Some 2))) \<and>
   dirty (heap (final_state (exec (8 + k) prog_read_twice init_state)) 1)"
proof -
  have e: "final_trace (exec 8 prog_read_twice init_state) = Some [Derive 1, Derive 1]"
    "outcome (exec 8 prog_read_twice init_state) = Some (Inr (RVal (Some 2)))"
    "dirty (heap (final_state (exec 8 prog_read_twice init_state)) 1)"
    by (simp_all add: prog_read_twice_def eval_defs cong: and_then_weak_cong)
  have "exec (8 + k) prog_read_twice init_state = exec 8 prog_read_twice init_state"
    using run_more[OF final_eq[OF e(2)], of k] final_eq[OF e(2)] by simp
  then show ?thesis using e by simp
qed

subsection \<open>C2: a batch propagates the writes made in it\<close>

text \<open>
  C2 says that \<open>Signal.batch\<close> marks the downstream of exactly the signals written during
  that call, the mapping of buffered signals carrying nothing into a later batch. In the
  source \<open>batch\<close> never empties \<open>Signal.batchQueue\<close>. C2 on \<open>prog_two_batches\<close>: the
  second batch writes only the second signal (object 1), and yet it calls
  \<open>dirtyDownstream\<close> on the first signal (\<open>Notify 0\<close>) and runs the effect (object 2) that
  reads only the first signal again; both signals are still buffered at the end.
\<close>

theorem second_batch_replays_first_batch:
  "final_trace (exec (11 + k) prog_two_batches init_state) =
     Some [Body 2, Notify 0, SchedRun 2, Body 2, Notify 0, Notify 1, SchedRun 2, Body 2] \<and>
   outcome (exec (11 + k) prog_two_batches init_state) = Some (Inr (RVal None)) \<and>
   batchQueue (final_state (exec (11 + k) prog_two_batches init_state)) = [0, 1]"
proof -
  have e: "final_trace (exec 11 prog_two_batches init_state) =
     Some [Body 2, Notify 0, SchedRun 2, Body 2, Notify 0, Notify 1, SchedRun 2, Body 2]"
    "outcome (exec 11 prog_two_batches init_state) = Some (Inr (RVal None))"
    "batchQueue (final_state (exec 11 prog_two_batches init_state)) = [0, 1]"
    by (simp_all add: prog_two_batches_def eval_defs cong: and_then_weak_cong)
  have "exec (11 + k) prog_two_batches init_state = exec 11 prog_two_batches init_state"
    using run_more[OF final_eq[OF e(2)], of k] final_eq[OF e(2)] by simp
  then show ?thesis using e by simp
qed

subsection \<open>C3: a throwing evaluation and the evaluation stack\<close>

text \<open>
  C3 as stated, at \<open>st_throwing\<close>: the evaluation stack is empty; the Computed (object 0),
  whose derivation throws, is read, and the Effect (object 1), whose body throws, is run.
  Each time the exception reaches the caller, and the stack the caller is left with holds the
  failing node: it is not the stack from before the evaluation.
\<close>

theorem throwing_evaluation_keeps_stack_entry:
  "effectStack st_throwing = [] \<and>
   outcome (computed_value_get 3 0 st_throwing) = Some (Inl UserThrow) \<and>
   final_stack (computed_value_get 3 0 st_throwing) = Some [0] \<and>
   outcome (effect_run 2 1 st_throwing) = Some (Inl UserThrow) \<and>
   final_stack (effect_run 2 1 st_throwing) = Some [1]"
  by (simp add: st_throwing_def eval_defs cong: and_then_weak_cong)

text \<open>
  C3, amended: when the derivation of a Computed or the body of an Effect throws, the
  exception leaves \<open>_ensureComputed\<close>, respectively \<open>Effect.run\<close>, and the evaluation stack is
  not restored: it is the stack from before the evaluation followed by the entry pushed for
  the failing node (and by the entries of the failed evaluations nested in it).
\<close>

theorem throw_leaves_stack_entry:
  "(dirty (heap st c) \<and>
    exec n (computeFn (heap st c)) (derivation_start c st) = Some (st', Inl err)
    \<longrightarrow> ensureComputed (Suc n) c st = Some (st', Inl err) \<and>
        (\<exists>T. effectStack st' = effectStack st @ c # T)) \<and>
   (exec n (effectFn (heap st e)) (body_start e st) = Some (st'', Inl err')
    \<longrightarrow> effect_run (Suc n) e st = Some (st'', Inl err') \<and>
        (\<exists>T. effectStack st'' = effectStack st @ e # T))"
  by (auto simp: and_then_Some Let_def derivation_start_def body_start_def dest!: run_stack)

theorem throw_leaves_stack_entry_witness:
  "(dirty (heap st_throwing 0) \<and>
    exec 1 (computeFn (heap st_throwing 0)) (derivation_start 0 st_throwing)
      = Some (derivation_start 0 st_throwing, Inl UserThrow) \<and>
    ensureComputed 2 0 st_throwing = Some (derivation_start 0 st_throwing, Inl UserThrow) \<and>
    effectStack st_throwing = [] \<and> effectStack (derivation_start 0 st_throwing) = [0]) \<and>
   (exec 1 (effectFn (heap st_throwing 1)) (body_start 1 st_throwing)
      = Some (body_start 1 st_throwing, Inl UserThrow) \<and>
    effect_run 2 1 st_throwing = Some (body_start 1 st_throwing, Inl UserThrow) \<and>
    effectStack (body_start 1 st_throwing) = [1])"
  using throw_leaves_stack_entry[of st_throwing 0 1 "derivation_start 0 st_throwing" UserThrow
          1 "body_start 1 st_throwing" UserThrow]
  by (simp add: st_throwing_def derivation_start_def body_start_def eval_defs
           cong: and_then_weak_cong)

subsection \<open>C4: edges are mirrored\<close>

text \<open>
  C4: in every state between operations, \<open>a\<close> is in the upstream mapping of \<open>b\<close> exactly
  when \<open>b\<close> is in the downstream mapping of \<open>a\<close>; \<open>collect\<close> adds both halves of an edge
  and \<open>release\<close> removes both halves, so each of them keeps the edges mirrored.
\<close>

theorem edges_mirrored:
  "(reachable st \<longrightarrow> mirrored st) \<and>
   (mirrored st \<longrightarrow> mirrored (collect x st) \<and> mirrored (release x st))"
  using reachable_wf[of st] by (auto simp: wf_def mirrored_collect mirrored_release)

theorem edges_mirrored_witness:
  "reachable st_setup \<and> mirrored st_setup \<and>
   mirrored (collect 1 st_setup) \<and> mirrored (release 3 st_setup) \<and>
   nexts (heap st_setup 0) = [3, 2] \<and> prevs (heap st_setup 3) = [0, 2] \<and>
   nexts (heap (release 3 st_setup) 0) = [2] \<and> prevs (heap (release 3 st_setup) 3) = []"
proof -
  have r: "reachable st_setup"
    unfolding st_setup_def by (rule reachable_final[OF reachable_init])
  show ?thesis
    using r edges_mirrored[of st_setup 1] edges_mirrored[of st_setup 3]
    by (simp add: st_setup_heap)
qed

subsection \<open>C5: the drain runs the smallest priority first\<close>

text \<open>
  C5: while nodes are pending, \<open>autoRun\<close> takes a pending node of smallest priority,
  removes it from \<open>queue\<close> and \<open>queueIndex\<close>, and only then runs it, so that
  \<open>addEffectTask\<close> accepts the same node again during its own run; then \<open>autoRun\<close> goes
  on, and when it returns nothing is pending.
\<close>

theorem autoRun_takes_smallest:
  "sched_inv st \<Longrightarrow> queue st \<noteq> [] \<Longrightarrow>
   (let node = last (sort_key (\<lambda>i. - priority (heap st i)) (queue st));
        st1 = (emit (SchedRun node)
                (st\<lparr>queue := butlast (sort_key (\<lambda>i. - priority (heap st i)) (queue st))\<rparr>))
              \<lparr>queueIndex := removeAll node (queueIndex st)\<rparr>
    in autoRun (Suc n) st = and_then (node_run n node st1) (\<lambda>_. autoRun n) \<and>
       node \<in> set (queue st) \<and>
       (\<forall>m \<in> set (queue st). priority (heap st node) \<le> priority (heap st m)) \<and>
       node \<notin> set (queue st1) \<and> node \<notin> set (queueIndex st1) \<and>
       set (queue st1) = set (queue st) - {node} \<and>
       node \<in> set (queue (addEffectTask node st1))) \<and>
   (\<forall>k st' v. autoRun k st = Some (st', Inr v) \<longrightarrow> queue st' = [])"
proof -
  assume inv: "sched_inv st" and ne: "queue st \<noteq> []"
  let ?q = "sort_key (\<lambda>i. - priority (heap st i)) (queue st)"
  have d: "distinct ?q" and s: "set ?q = set (queue st)" and qne: "?q \<noteq> []"
    using inv ne by (auto simp: sched_inv_def) (metis length_0_conv length_sort)
  have mem: "last ?q \<in> set (queue st)" using last_in_set[OF qne] s by simp
  have min: "\<forall>m \<in> set (queue st). priority (heap st (last ?q)) \<le> priority (heap st m)"
    using last_sort_key_min[OF ne, of "\<lambda>i. priority (heap st i)"] .
  have bl: "set (butlast ?q) = set (queue st) - {last ?q}"
    using set_butlast_distinct[OF d qne] s by simp
  show ?thesis
    using ne mem min bl autoRun_drains
    by (auto simp: Let_def addEffectTask_def obj_put_def)
qed

theorem autoRun_takes_smallest_witness:
  "sched_inv st_queued \<and> queue st_queued = [3, 2] \<and>
   priority (heap st_queued 3) = 2 \<and> priority (heap st_queued 2) = 1 \<and>
   last (sort_key (\<lambda>i. - priority (heap st_queued i)) (queue st_queued)) = 2 \<and>
   priority (heap st_queued 2) \<le> priority (heap st_queued 3) \<and>
   final_trace (autoRun 10 st_queued)
     = Some [Body 3, Derive 2, Notify 0, SchedRun 2, Derive 2, Notify 2, SchedRun 3, Body 3] \<and>
   queue (final_state (autoRun 10 st_queued)) = []"
proof -
  have inv: "sched_inv st_queued" by (simp add: sched_inv_def st_queued_fields)
  have ne: "queue st_queued \<noteq> []" by (simp add: st_queued_fields)
  have e: "autoRun 10 st_queued = Some (final_state (autoRun 10 st_queued), Inr (RVal None))"
    by (rule final_eq) (rule st_queued_fields)
  note th = autoRun_takes_smallest[OF inv ne, of 9]
  have d: "queue (final_state (autoRun 10 st_queued)) = []"
    using th e by blast
  have l: "last (sort_key (\<lambda>i. - priority (heap st_queued i)) (queue st_queued)) = 2"
    by (simp add: st_queued_fields)
  have m: "\<forall>m \<in> set (queue st_queued). priority (heap st_queued 2) \<le> priority (heap st_queued m)"
    using th unfolding Let_def l by blast
  have m3: "priority (heap st_queued 2) \<le> priority (heap st_queued 3)"
    using m by (simp add: st_queued_fields)
  show ?thesis
    using inv d l m3 by (simp add: st_queued_fields)
qed

subsection \<open>C6: a node is pending at most once\<close>

text \<open>
  C6: \<open>addEffectTask\<close> on a node whose id is in \<open>queueIndex\<close> changes nothing; in every
  state between operations no node occurs twice in \<open>queue\<close>, and the ids in \<open>queueIndex\<close>
  are exactly the nodes in \<open>queue\<close>.
\<close>

theorem pending_deduplicated:
  "(n \<in> set (queueIndex st) \<longrightarrow> addEffectTask n st = st) \<and>
   (reachable st \<longrightarrow>
      distinct (queue st) \<and> distinct (queueIndex st) \<and> set (queueIndex st) = set (queue st))"
  using reachable_wf[of st] by (auto simp: wf_def sched_inv_def addEffectTask_def)

theorem pending_deduplicated_witness:
  "reachable st_pending \<and> queue st_pending = [1] \<and> queueIndex st_pending = [1] \<and>
   addEffectTask 1 st_pending = st_pending \<and>
   outcome (exec 10 prog_pending init_state) = Some (Inl UserThrow)"
proof -
  have r: "reachable st_pending"
    unfolding st_pending_def by (rule reachable_final[OF reachable_init])
  have q: "queue st_pending = [1]" "queueIndex st_pending = [1]"
    "outcome (exec 10 prog_pending init_state) = Some (Inl UserThrow)"
    by (simp_all add: st_pending_def prog_pending_def eval_defs cong: and_then_weak_cong)
  show ?thesis
    using r q pending_deduplicated[of 1 st_pending] by simp
qed

subsection \<open>C7: a write always propagates\<close>

text \<open>
  C7: outside batch mode, writing \<open>v\<close> to a Signal stores \<open>v\<close>, marks every node of the
  signal's downstream dirty and queues it, and then drains the scheduler, whatever the value
  stored before: \<open>v\<close> is not compared with it.
\<close>

theorem write_always_propagates:
  "\<not> batchMode st \<Longrightarrow> sched_inv st \<Longrightarrow>
   (let st1 = dirtyDownstream x (upd_node x (\<lambda>d. d\<lparr>node_value := v\<rparr>) st) in
      signal_value_set (Suc n) x v st = autoRun n st1 \<and>
      node_value (heap st1 x) = v \<and>
      (\<forall>d \<in> set (nexts (heap st x)).
         dirty (heap st1 d) \<and> d \<in> set (queueIndex st1) \<and> d \<in> set (queue st1)))"
proof -
  let ?st0 = "upd_node x (\<lambda>d. d\<lparr>node_value := v\<rparr>) st"
  assume nb: "\<not> batchMode st" and inv: "sched_inv st"
  have n: "nexts (heap ?st0 x) = nexts (heap st x)" by simp
  have s: "sched_inv (dirtyDownstream x ?st0)"
    using inv by (simp add: sched_inv_dirtyDownstream)
  have "dirty (heap (dirtyDownstream x ?st0) d) \<and> d \<in> set (queueIndex (dirtyDownstream x ?st0))"
    if "d \<in> set (nexts (heap st x))" for d
    using dirtyDownstream_marks[of d ?st0 x] that n by simp
  then show ?thesis
    using nb s by (auto simp: Let_def sched_inv_def)
qed

theorem write_always_propagates_witness:
  "\<not> batchMode st_setup \<and> sched_inv st_setup \<and>
   node_value (heap st_setup 0) = Some 1 \<and> nexts (heap st_setup 0) = [3, 2] \<and>
   signal_value_set 11 0 (Some 1) st_setup
     = autoRun 10 (dirtyDownstream 0 (upd_node 0 (\<lambda>d. d\<lparr>node_value := Some 1\<rparr>) st_setup)) \<and>
   dirty (heap (dirtyDownstream 0 (upd_node 0 (\<lambda>d. d\<lparr>node_value := Some 1\<rparr>) st_setup)) 3) \<and>
   dirty (heap (dirtyDownstream 0 (upd_node 0 (\<lambda>d. d\<lparr>node_value := Some 1\<rparr>) st_setup)) 2) \<and>
   final_trace (signal_value_set 11 0 (Some 1) st_setup)
     = Some [Body 3, Derive 2, Notify 0, SchedRun 2, Derive 2, Notify 2, SchedRun 3, Body 3]"
proof -
  have nb: "\<not> batchMode st_setup" by (rule st_setup_fields)
  have inv: "sched_inv st_setup" by (simp add: sched_inv_def st_setup_fields)
  have t: "final_trace (signal_value_set 11 0 (Some 1) st_setup)
     = Some [Body 3, Derive 2, Notify 0, SchedRun 2, Derive 2, Notify 2, SchedRun 3, Body 3]"
    by (simp add: st_setup_def prog_setup_def eval_defs cong: and_then_weak_cong)
  show ?thesis
    using nb inv t write_always_propagates[OF nb inv, of 0 "Some 1" 10]
    by (simp add: st_setup_heap Let_def del: run.simps)
qed

subsection \<open>C8: reading outside any evaluation\<close>

text \<open>
  C8: with the evaluation stack empty, the getter of a Signal returns what \<open>peek\<close> returns
  and leaves the whole state as it is.
\<close>

theorem untracked_read_is_peek:
  "effectStack st = [] \<Longrightarrow>
     signal_value_get x st = signal_peek x st \<and>
     signal_value_get x st = Some (st, Inr (RVal (node_value (heap st x))))"
  by (simp add: signal_value_get_def signal_peek_def collect_def ret_def)

theorem untracked_read_is_peek_witness:
  "effectStack st_setup = [] \<and>
   signal_value_get 0 st_setup = signal_peek 0 st_setup \<and>
   signal_value_get 0 st_setup = Some (st_setup, Inr (RVal (Some 1)))"
  using untracked_read_is_peek[of st_setup 0]
  by (simp add: st_setup_fields st_setup_heap signal_peek_def ret_def)

subsection \<open>C9: stopping twice\<close>

text \<open>
  C9 as stated says that for each \<open>run()\<close> of an effect the stored cleanup is called at most
  once. \<open>Effect.stop\<close> clears \<open>destroy\<close> and \<open>running\<close> only after \<open>this.destroy()\<close> has
  returned. At \<open>prog_reentrant_cleanup\<close> the effect runs once and is stopped once, the
  cleanup stops the effect again while it runs, every call returns, and the cleanup is called
  twice. At \<open>st_throwing_cleanup\<close> the effect has run once; the first \<open>stop()\<close> ends in the
  cleanup's exception, and the second \<open>stop()\<close> calls the cleanup again.
\<close>

theorem cleanup_called_twice_for_one_run:
  "final_trace (exec 11 prog_reentrant_cleanup init_state)
     = Some [Body 2, Cleanup 2, Notify 1, Cleanup 2] \<and>
   outcome (exec 11 prog_reentrant_cleanup init_state) = Some (Inr (RVal None)) \<and>
   trace st_throwing_cleanup = [Body 1] \<and>
   outcome (effect_stop 2 1 st_throwing_cleanup) = Some (Inl UserThrow) \<and>
   final_trace (effect_stop 2 1 (final_state (effect_stop 2 1 st_throwing_cleanup)))
     = Some [Body 1, Cleanup 1, Cleanup 1]"
  by (simp add: prog_reentrant_cleanup_def st_throwing_cleanup_def eval_defs
           cong: and_then_weak_cong)

text \<open>
  C9, amended: \<open>stop()\<close> on an effect that is not running changes nothing and calls no
  cleanup (the record of calls is part of the state). A \<open>stop()\<close> that returns leaves the
  effect not running and, when it found the effect running, without a stored cleanup; so a
  \<open>stop()\<close> that follows it changes nothing and calls no cleanup: \<open>stop()\<close> after a \<open>stop()\<close>
  that returned is that \<open>stop()\<close>. Nothing bounds the calls of the cleanup made before a
  \<open>stop()\<close> has returned.
\<close>

theorem stop_idempotent:
  "(\<not> running (heap st e) \<longrightarrow> effect_stop (Suc n) e st = Some (st, Inr (RVal None))) \<and>
   (effect_stop n e st = Some (st', Inr v) \<longrightarrow>
      \<not> running (heap st' e) \<and> (running (heap st e) \<longrightarrow> destroy (heap st' e) = None) \<and>
      effect_stop (Suc m) e st' = Some (st', Inr (RVal None)))"
proof (cases n)
  case 0
  then show ?thesis by (simp add: void_def)
next
  case (Suc k)
  then show ?thesis
    by (auto simp: void_def and_then_Some split: if_splits)
qed

theorem stop_idempotent_witness:
  "running (heap st_effect 1) \<and>
   final_trace (effect_stop 2 1 st_effect) = Some [Body 1, Cleanup 1] \<and>
   effect_stop 2 1 st_effect = Some (final_state (effect_stop 2 1 st_effect), Inr (RVal None)) \<and>
   \<not> running (heap (final_state (effect_stop 2 1 st_effect)) 1) \<and>
   destroy (heap (final_state (effect_stop 2 1 st_effect)) 1) = None \<and>
   effect_stop 2 1 (final_state (effect_stop 2 1 st_effect))
     = Some (final_state (effect_stop 2 1 st_effect), Inr (RVal None))"
proof -
  let ?st' = "final_state (effect_stop 2 1 st_effect)"
  have e: "effect_stop 2 1 st_effect = Some (?st', Inr (RVal None))"
    by (rule final_eq) (rule st_effect_fields)
  note th = stop_idempotent[where st = st_effect and e = 1 and n = 2 and st' = ?st'
        and v = "RVal None" and m = 1]
  have a: "\<not> running (heap ?st' 1)"
    and c: "destroy (heap ?st' 1) = None"
    and b: "effect_stop (Suc 1) 1 ?st' = Some (?st', Inr (RVal None))"
    using th e st_effect_fields(1) by blast+
  have two: "Suc 1 = (2::nat)" by simp
  show ?thesis
    using e a c b[unfolded two] st_effect_fields(1,2) by blast
qed

subsection \<open>C10: the write in the two versions\<close>

text \<open>
  C10: with batch mode off, and every stored closure one that the earlier version can run
  (none calls \<open>Signal.batch\<close>), a write to a Signal ends in the same way in both versions:
  the same state, with the same record of calls in the same order, and the same outcome.
\<close>

theorem write_same_as_earlier_version:
  "no_batch st \<Longrightarrow> v0_signal_value_set n x v st = signal_value_set n x v st"
  using v0_run_eq_run[of st "SignalSet x v" n] by simp

theorem write_same_as_earlier_version_witness:
  "no_batch st_setup \<and>
   v0_signal_value_set 11 0 (Some 2) st_setup = signal_value_set 11 0 (Some 2) st_setup \<and>
   final_trace (signal_value_set 11 0 (Some 2) st_setup)
     = Some [Body 3, Derive 2, Notify 0, SchedRun 2, Derive 2, Notify 2, SchedRun 3, Body 3] \<and>
   node_value (heap (final_state (signal_value_set 11 0 (Some 2) st_setup)) 2) = Some 3"
proof -
  have nb: "no_batch st_setup"
    unfolding st_setup_def by (rule no_batch_final) (simp add: prog_setup_def)
  have t: "final_trace (signal_value_set 11 0 (Some 2) st_setup)
     = Some [Body 3, Derive 2, Notify 0, SchedRun 2, Derive 2, Notify 2, SchedRun 3, Body 3]"
    "node_value (heap (final_state (signal_value_set 11 0 (Some 2) st_setup)) 2) = Some 3"
    by (simp_all add: st_setup_def prog_setup_def eval_defs cong: and_then_weak_cong)
  show ?thesis
    using nb t write_same_as_earlier_version[OF nb, of 11 0 "Some 2"] by simp
qed

end
